theory Spec2Isabelle
  imports Complex_Main "HOL-Library.Sublist" "HOL-Library.Multiset"
begin

section \<open>The video assembly routine of the Creator Station (src/render.js)\<close>

text \<open>
  The development embeds \<^verbatim>\<open>renderMp4\<close> of \<^verbatim>\<open>src/render.js\<close> together with the
  \<^verbatim>\<open>Manifest\<close> schema and the helper \<^verbatim>\<open>run\<close>. Library calls (JSON.parse, zod, fs,
  path, child_process) are modelled by what they return and by what they change in an
  explicit file system; exceptions are values of the type \<open>error\<close>.
\<close>

subsection \<open>JSON values\<close>

text \<open>
  A JavaScript number as JSON.parse can produce it: a finite value, or an infinity when
  the literal overflows (\<^verbatim>\<open>1e999\<close>). NaN has no JSON literal.
\<close>

datatype jsnum = Fin rat | PosInf | NegInf

text \<open>
  The value returned by JSON.parse. An object is its list of properties; \<open>map_of\<close>
  reads a property, and an absent property reads as \<^verbatim>\<open>undefined\<close> (\<open>None\<close>).
\<close>

datatype json =
    JNull
  | JBool bool
  | JNum jsnum
  | JStr string
  | JArr "json list"
  | JObj "(string \<times> json) list"

datatype error =
    SyntaxError
  | ZodError
  | TypeError
  | FsError
  | ImagesCountError nat nat
  | FfmpegFailed "int option" string

text \<open>
  \<open>SyntaxError\<close> is thrown by JSON.parse, \<open>ZodError\<close> by \<^verbatim>\<open>Manifest.parse\<close>,
  \<open>TypeError\<close> by a property read on \<^verbatim>\<open>undefined\<close>, \<open>FsError\<close> by a call of the
  fs module. \<open>ImagesCountError a b\<close> is the
  \<^verbatim>\<open>Error(`Images count (${a}) must match scenes (${b}).`)\<close> of line 44 and
  \<open>FfmpegFailed code stderr\<close> the \<^verbatim>\<open>Error(`ffmpeg failed (${code}): ${stderr}`)\<close> of
  line 25; the constructors carry exactly the values the messages interpolate.
\<close>

subsection \<open>The zod schema \<^verbatim>\<open>Manifest\<close> (lines 11 to 16)\<close>

text \<open>
  A zod type is a parser of an input that may be \<^verbatim>\<open>undefined\<close> (\<open>None\<close>). Each
  combinator below is the zod method of the same name, restricted to the result
  (accepted value or rejection); zod's list of issues is not modelled.
\<close>

type_synonym 'a zod = "json option \<Rightarrow> error + 'a"

definition z_number :: "jsnum zod" where
  "z_number x = (case x of Some (JNum n) \<Rightarrow> Inr n | _ \<Rightarrow> Inl ZodError)"

fun num_ge :: "jsnum \<Rightarrow> rat \<Rightarrow> bool" where
  "num_ge (Fin r) b = (b \<le> r)"
| "num_ge PosInf b = True"
| "num_ge NegInf b = False"

fun num_le :: "jsnum \<Rightarrow> rat \<Rightarrow> bool" where
  "num_le (Fin r) b = (r \<le> b)"
| "num_le PosInf b = False"
| "num_le NegInf b = True"

definition z_min :: "rat \<Rightarrow> jsnum zod \<Rightarrow> jsnum zod" where
  "z_min b p x = (case p x of Inl e \<Rightarrow> Inl e
                  | Inr n \<Rightarrow> if num_ge n b then Inr n else Inl ZodError)"

definition z_max :: "rat \<Rightarrow> jsnum zod \<Rightarrow> jsnum zod" where
  "z_max b p x = (case p x of Inl e \<Rightarrow> Inl e
                  | Inr n \<Rightarrow> if num_le n b then Inr n else Inl ZodError)"

definition z_boolean :: "bool zod" where
  "z_boolean x = (case x of Some (JBool b) \<Rightarrow> Inr b | _ \<Rightarrow> Inl ZodError)"

text \<open>\<^verbatim>\<open>.optional()\<close> lets \<^verbatim>\<open>undefined\<close> through; \<^verbatim>\<open>null\<close> is not \<^verbatim>\<open>undefined\<close>.\<close>

definition z_optional :: "'a zod \<Rightarrow> 'a option zod" where
  "z_optional p x = (case x of None \<Rightarrow> Inr None
                     | Some j \<Rightarrow> (case p (Some j) of Inl e \<Rightarrow> Inl e | Inr v \<Rightarrow> Inr (Some v)))"

text \<open>
  \<^verbatim>\<open>.default(d)\<close> replaces an \<^verbatim>\<open>undefined\<close> input by \<open>d\<close> and then runs the inner
  type; its output type drops \<^verbatim>\<open>undefined\<close>.
\<close>

definition z_default :: "json \<Rightarrow> 'a option zod \<Rightarrow> 'a zod" where
  "z_default d p x =
     (case p (case x of None \<Rightarrow> Some d | Some j \<Rightarrow> Some j) of
        Inl e \<Rightarrow> Inl e
      | Inr None \<Rightarrow> Inl ZodError
      | Inr (Some v) \<Rightarrow> Inr v)"

text \<open>\<^verbatim>\<open>z.array(p)\<close>: the input is an array and every element is accepted by \<open>p\<close>.\<close>

fun z_elements :: "'a zod \<Rightarrow> json list \<Rightarrow> error + 'a list" where
  "z_elements p [] = Inr []"
| "z_elements p (j # js) =
     (case p (Some j) of
        Inl e \<Rightarrow> Inl e
      | Inr v \<Rightarrow> (case z_elements p js of Inl e \<Rightarrow> Inl e | Inr vs \<Rightarrow> Inr (v # vs)))"

definition z_array :: "'a zod \<Rightarrow> 'a list zod" where
  "z_array p x = (case x of Some (JArr js) \<Rightarrow> z_elements p js | _ \<Rightarrow> Inl ZodError)"

definition z_array_min :: "nat \<Rightarrow> 'a list zod \<Rightarrow> 'a list zod" where
  "z_array_min n p x = (case p x of Inl e \<Rightarrow> Inl e
                        | Inr vs \<Rightarrow> if n \<le> length vs then Inr vs else Inl ZodError)"

text \<open>
  \<^verbatim>\<open>z.object({...})\<close>: the input is an object (not an array, not \<^verbatim>\<open>null\<close>); each
  declared key is read from it and parsed by its type; other keys are dropped.
  \<open>z_object\<close> hands the property lookup to the parser of the shape.
\<close>

definition z_object :: "((string \<Rightarrow> json option) \<Rightarrow> error + 'a) \<Rightarrow> 'a zod" where
  "z_object shape x = (case x of Some (JObj kvs) \<Rightarrow> shape (map_of kvs) | _ \<Rightarrow> Inl ZodError)"

record scene =
  duration_sec :: jsnum
  hasAudio :: bool

record manifest =
  scenes :: "scene list"

definition Scene :: "scene zod" where
  "Scene = z_object (\<lambda>get.
     case z_max 60 (z_min 1 z_number) (get ''duration_sec'') of
       Inl e \<Rightarrow> Inl e
     | Inr d \<Rightarrow>
        (case z_default (JBool False) (z_optional z_boolean) (get ''hasAudio'') of
           Inl e \<Rightarrow> Inl e
         | Inr h \<Rightarrow> Inr \<lparr>duration_sec = d, hasAudio = h\<rparr>))"

definition Manifest :: "manifest zod" where
  "Manifest = z_object (\<lambda>get.
     case z_array_min 1 (z_array Scene) (get ''scenes'') of
       Inl e \<Rightarrow> Inl e
     | Inr ss \<Rightarrow> Inr \<lparr>scenes = ss\<rparr>)"

text \<open>
  Line 31, \<^verbatim>\<open>Manifest.parse(JSON.parse(manifestJson))\<close>. The argument is the outcome of
  JSON.parse on the request's text: \<open>None\<close> when it throws.
\<close>

definition parse_manifest :: "json option \<Rightarrow> error + manifest" where
  "parse_manifest parsed =
     (case parsed of None \<Rightarrow> Inl SyntaxError | Some j \<Rightarrow> Manifest (Some j))"

subsection \<open>The manifest contract in the words of the specification\<close>

text \<open>
  A scene is an object with a numeric \<^verbatim>\<open>duration_sec\<close> in the closed range [1, 60]
  and an optional boolean \<^verbatim>\<open>hasAudio\<close>.
\<close>

fun spec_scene_ok :: "json \<Rightarrow> bool" where
  "spec_scene_ok (JObj kvs) =
     ((case map_of kvs ''duration_sec'' of
         Some (JNum (Fin r)) \<Rightarrow> 1 \<le> r \<and> r \<le> 60
       | _ \<Rightarrow> False) \<and>
      (case map_of kvs ''hasAudio'' of
         None \<Rightarrow> True
       | Some (JBool b) \<Rightarrow> True
       | _ \<Rightarrow> False))"
| "spec_scene_ok _ = False"

text \<open>A manifest is an object with a \<^verbatim>\<open>scenes\<close> array of length at least 1 of such scenes.\<close>

fun spec_manifest_ok :: "json \<Rightarrow> bool" where
  "spec_manifest_ok (JObj kvs) =
     (case map_of kvs ''scenes'' of
        Some (JArr js) \<Rightarrow> 1 \<le> length js \<and> list_all spec_scene_ok js
      | _ \<Rightarrow> False)"
| "spec_manifest_ok _ = False"

text \<open>
  The scene record the specification describes for an accepted element: its duration,
  and \<^verbatim>\<open>hasAudio\<close> as given, false when absent.
\<close>

fun spec_scene :: "json \<Rightarrow> scene" where
  "spec_scene (JObj kvs) =
     \<lparr>duration_sec = (case map_of kvs ''duration_sec'' of Some (JNum n) \<Rightarrow> n | _ \<Rightarrow> Fin 0),
      hasAudio = (case map_of kvs ''hasAudio'' of Some (JBool b) \<Rightarrow> b | _ \<Rightarrow> False)\<rparr>"
| "spec_scene _ = \<lparr>duration_sec = Fin 0, hasAudio = False\<rparr>"

fun scenes_of :: "json \<Rightarrow> json list" where
  "scenes_of (JObj kvs) = (case map_of kvs ''scenes'' of Some (JArr js) \<Rightarrow> js | _ \<Rightarrow> [])"
| "scenes_of _ = []"

subsection \<open>Uploaded files, the file system and the environment\<close>

text \<open>
  A file object of the upload middleware; \<^verbatim>\<open>renderMp4\<close> reads these two properties.
  \<^verbatim>\<open>files\<close> is \<^verbatim>\<open>req.files\<close>: \<^verbatim>\<open>undefined\<close> (\<open>None\<close>) for a request that is not
  multipart, and each field is \<^verbatim>\<open>undefined\<close> when no file came under its name.
\<close>

record upload_file =
  originalname :: string
  path :: string

record upload_files =
  images :: "upload_file list option"
  audios :: "upload_file list option"

record render_input =
  files :: "upload_files option"
  manifestJson :: "json option"

text \<open>The file system maps a path to a directory or to a file with its bytes.\<close>

datatype node = Dir | File string

type_synonym filesystem = "string \<Rightarrow> node option"

text \<open>
  One command line argument: a string of the source, or \<open>Num d\<close> for \<^verbatim>\<open>String(d)\<close>,
  the decimal text of the number \<open>d\<close> (distinct numbers have distinct texts).
\<close>

datatype arg = Lit string | Num jsnum

text \<open>
  What a child process did when it closed: the \<^verbatim>\<open>code\<close> of its \<^verbatim>\<open>close\<close> event
  (\<^verbatim>\<open>null\<close>, here \<open>None\<close>, when a signal ended it), the text collected from its stderr,
  and the bytes it left at its output path, if any.
\<close>

record proc_exit =
  exit_code :: "int option"
  stderr_text :: string
  written :: "string option"

text \<open>
  The parts of the platform the routine calls and that the repository does not define:
  the directory \<^verbatim>\<open>fs.mkdtempSync\<close> returns (\<open>None\<close> when it throws), the comparison
  \<^verbatim>\<open>String.prototype.localeCompare\<close>, and the encoder binary as a function of its
  arguments and of the file system it runs in.
\<close>

record env =
  mkdtempSync :: "string option"
  localeCompare :: "string \<Rightarrow> string \<Rightarrow> int"
  ffmpeg :: "arg list \<Rightarrow> filesystem \<Rightarrow> proc_exit"

text \<open>
  The observable actions of a render, in order: every child process with its command,
  arguments, working directory and how it closed, and every file written by the routine.
\<close>

datatype event =
    Spawn string "arg list" string "int option" string
  | WriteFile string string

record world =
  fs :: filesystem
  log :: "event list"

subsection \<open>Calls of the fs and path modules\<close>

definition path_join :: "string \<Rightarrow> string \<Rightarrow> string" where
  "path_join dir name = dir @ ''/'' @ name"

definition under :: "string \<Rightarrow> string \<Rightarrow> bool" where
  "under dir p = prefix (dir @ ''/'') p"

definition mkdirSync :: "string \<Rightarrow> world \<Rightarrow> (error + unit) \<times> world" where
  "mkdirSync p w =
     (if fs w p \<noteq> None then (Inl FsError, w)
      else (Inr (), w\<lparr>fs := (fs w)(p \<mapsto> Dir)\<rparr>))"

definition writeFileSync :: "string \<Rightarrow> string \<Rightarrow> world \<Rightarrow> (error + unit) \<times> world" where
  "writeFileSync p d w =
     (if fs w p = Some Dir then (Inl FsError, w)
      else (Inr (), \<lparr>fs = (fs w)(p \<mapsto> File d), log = log w @ [WriteFile p d]\<rparr>))"

definition readFileSync :: "string \<Rightarrow> world \<Rightarrow> error + string" where
  "readFileSync p w = (case fs w p of Some (File d) \<Rightarrow> Inr d | _ \<Rightarrow> Inl FsError)"

text \<open>\<^verbatim>\<open>fs.rmSync(dir, { recursive: true, force: true })\<close>\<close>

definition rmSync :: "string \<Rightarrow> filesystem \<Rightarrow> filesystem" where
  "rmSync dir f = (\<lambda>p. if p = dir \<or> under dir p then None else f p)"

text \<open>
  The loop of line 96: \<^verbatim>\<open>fs.unlinkSync\<close> on each path in turn. It stops at the first
  path that is not a file (the call throws); the flag tells whether it ran to the end.
\<close>

fun unlink_each :: "string list \<Rightarrow> filesystem \<Rightarrow> bool \<times> filesystem" where
  "unlink_each [] f = (True, f)"
| "unlink_each (p # ps) f =
     (case f p of Some (File d) \<Rightarrow> unlink_each ps (f(p := None)) | _ \<Rightarrow> (False, f))"

subsection \<open>Sorting, numbering and the argument lists\<close>

text \<open>
  \<^verbatim>\<open>Array.prototype.sort(cmp)\<close> is a stable sort: \<open>a\<close> goes before \<open>b\<close> when
  \<open>cmp a b < 0\<close>, and elements that compare equal keep their order. For a comparison
  that orders its arguments consistently the result is the one insertion from the right
  computes; for any other comparison ECMAScript leaves the order to the implementation.
\<close>

fun insert_by :: "('a \<Rightarrow> 'a \<Rightarrow> int) \<Rightarrow> 'a \<Rightarrow> 'a list \<Rightarrow> 'a list" where
  "insert_by cmp x [] = [x]"
| "insert_by cmp x (y # ys) =
     (if cmp x y \<le> 0 then x # y # ys else y # insert_by cmp x ys)"

definition js_sort :: "('a \<Rightarrow> 'a \<Rightarrow> int) \<Rightarrow> 'a list \<Rightarrow> 'a list" where
  "js_sort cmp xs = foldr (insert_by cmp) xs []"

text \<open>The comparator of lines 40 and 41.\<close>

definition by_originalname :: "env \<Rightarrow> upload_file \<Rightarrow> upload_file \<Rightarrow> int" where
  "by_originalname e a b = localeCompare e (originalname a) (originalname b)"

text \<open>Lines 40 and 41: \<^verbatim>\<open>(files.images || []).sort(...)\<close> and the same for audios.\<close>

definition or_empty :: "'a list option \<Rightarrow> 'a list" where
  "or_empty x = (case x of None \<Rightarrow> [] | Some xs \<Rightarrow> xs)"

definition stage :: "env \<Rightarrow> upload_files \<Rightarrow> upload_file list \<times> upload_file list" where
  "stage e fl =
     (js_sort (by_originalname e) (or_empty (images fl)),
      js_sort (by_originalname e) (or_empty (audios fl)))"

text \<open>\<^verbatim>\<open>String(i)\<close> for an index and \<^verbatim>\<open>padStart\<close>.\<close>

definition digit :: "nat \<Rightarrow> char" where
  "digit d = char_of (48 + d)"

fun String_nat :: "nat \<Rightarrow> string" where
  "String_nat n = (if n < 10 then [digit n] else String_nat (n div 10) @ [digit (n mod 10)])"

declare String_nat.simps [simp del]

definition padStart :: "nat \<Rightarrow> char \<Rightarrow> string \<Rightarrow> string" where
  "padStart n c s = replicate (n - length s) c @ s"

definition seg_path :: "string \<Rightarrow> nat \<Rightarrow> string" where
  "seg_path tmp i = path_join tmp (''seg_'' @ padStart 3 (CHR ''0'') (String_nat i) @ ''.mp4'')"

definition vf :: string where
  "vf = ''scale=1280:720:force_original_aspect_ratio=decrease,pad=1280:720:(ow-iw)/2:(oh-ih)/2,format=yuv420p''"

text \<open>
  Line 55 gives \<^verbatim>\<open>audioFile\<close>: the path of \<^verbatim>\<open>audios[i]\<close>, or \<^verbatim>\<open>null\<close> (\<open>None\<close>)
  when there is no such element. Line 58 tests it for truth: \<^verbatim>\<open>null\<close> and the empty
  string are false.
\<close>

definition audio_at :: "upload_file list \<Rightarrow> nat \<Rightarrow> string option" where
  "audio_at auds i = (if i < length auds then Some (path (auds ! i)) else None)"

fun truthy :: "string option \<Rightarrow> bool" where
  "truthy None = False"
| "truthy (Some s) = (s \<noteq> [])"

text \<open>Lines 58 to 79.\<close>

definition scene_args :: "jsnum \<Rightarrow> string \<Rightarrow> string option \<Rightarrow> string \<Rightarrow> arg list" where
  "scene_args dur imgPath audioFile seg =
     (if truthy audioFile then
        [Lit ''-y'',
         Lit ''-loop'', Lit ''1'',
         Lit ''-i'', Lit imgPath,
         Lit ''-i'', Lit (the audioFile),
         Lit ''-t'', Num dur,
         Lit ''-vf'', Lit vf,
         Lit ''-shortest'',
         Lit ''-r'', Lit ''30'',
         Lit ''-c:v'', Lit ''libx264'',
         Lit ''-c:a'', Lit ''aac'',
         Lit seg]
      else
        [Lit ''-y'',
         Lit ''-loop'', Lit ''1'',
         Lit ''-i'', Lit imgPath,
         Lit ''-t'', Num dur,
         Lit ''-vf'', Lit vf,
         Lit ''-r'', Lit ''30'',
         Lit ''-c:v'', Lit ''libx264'',
         Lit seg])"

text \<open>Line 90.\<close>

definition concat_args :: "string \<Rightarrow> string \<Rightarrow> arg list" where
  "concat_args listFile out =
     [Lit ''-y'', Lit ''-f'', Lit ''concat'', Lit ''-safe'', Lit ''0'',
      Lit ''-i'', Lit listFile, Lit ''-c'', Lit ''copy'', Lit out]"

text \<open>
  Line 87: each segment path becomes \<^verbatim>\<open>file '...'\<close> with every single quote replaced
  by the four characters quote, backslash, quote, quote; the lines are joined by a
  newline.
\<close>

definition quote :: char where
  "quote = CHR 0x27"

definition escape_quotes :: "string \<Rightarrow> string" where
  "escape_quotes f = concat (map (\<lambda>c. if c = quote then [quote, CHR 0x5C, quote, quote] else [c]) f)"

definition list_line :: "string \<Rightarrow> string" where
  "list_line f = ''file '' @ [quote] @ escape_quotes f @ [quote]"

fun join :: "string \<Rightarrow> string list \<Rightarrow> string" where
  "join sep [] = []"
| "join sep [x] = x"
| "join sep (x # y # ys) = x @ sep @ join sep (y # ys)"

definition list_content :: "string list \<Rightarrow> string" where
  "list_content segmentFiles = join [CHR 0x0A] (map list_line segmentFiles)"

subsection \<open>\<^verbatim>\<open>run\<close> (lines 18 to 28)\<close>

text \<open>
  The child process starts, runs and closes; a binary that cannot be started is outside
  the model. The encoder writes at the path given as its last argument and changes
  nothing else. The promise resolves when the exit code is 0 and rejects with the error
  of line 25 otherwise.
\<close>

definition out_path :: "arg list \<Rightarrow> string option" where
  "out_path args = (case rev args of Lit p # _ \<Rightarrow> Some p | _ \<Rightarrow> None)"

definition run :: "env \<Rightarrow> string \<Rightarrow> arg list \<Rightarrow> string \<Rightarrow> world \<Rightarrow> (error + unit) \<times> world" where
  "run e cmd args cwd w =
     (let r = ffmpeg e args (fs w);
          f = (case (written r, out_path args) of
                 (Some d, Some p) \<Rightarrow> (fs w)(p \<mapsto> File d)
               | _ \<Rightarrow> fs w);
          w' = \<lparr>fs = f, log = log w @ [Spawn cmd args cwd (exit_code r) (stderr_text r)]\<rparr>
      in if exit_code r = Some 0 then (Inr (), w')
         else (Inl (FfmpegFailed (exit_code r) (stderr_text r)), w'))"

subsection \<open>\<^verbatim>\<open>renderMp4\<close> (lines 30 to 101)\<close>

text \<open>Lines 33 to 37: the temporary directory and its two subdirectories.\<close>

definition open_workspace :: "env \<Rightarrow> world \<Rightarrow> (error + string) \<times> world" where
  "open_workspace e w =
     (case mkdtempSync e of
        None \<Rightarrow> (Inl FsError, w)
      | Some tmp \<Rightarrow>
         (case mkdirSync (path_join tmp ''imgs'') (w\<lparr>fs := (fs w)(tmp \<mapsto> Dir)\<rparr>) of
            (Inl err, w1) \<Rightarrow> (Inl err, w1)
          | (Inr _, w1) \<Rightarrow>
             (case mkdirSync (path_join tmp ''aud'') w1 of
                (Inl err, w2) \<Rightarrow> (Inl err, w2)
              | (Inr _, w2) \<Rightarrow> (Inr tmp, w2))))"

text \<open>
  The loop of lines 49 to 83, from index \<open>i\<close> on, with the segment paths pushed so far.
  \<^verbatim>\<open>images[i].path\<close> throws a TypeError when \<^verbatim>\<open>images[i]\<close> is \<^verbatim>\<open>undefined\<close>.
\<close>

function encode_scenes ::
  "env \<Rightarrow> string \<Rightarrow> scene list \<Rightarrow> upload_file list \<Rightarrow> upload_file list \<Rightarrow> nat \<Rightarrow> string list \<Rightarrow> world
     \<Rightarrow> (error + string list) \<times> world" where
  "encode_scenes e tmp scs imgs auds i segmentFiles w =
     (if i < length scs then
        (if i < length imgs then
           (case run e ''ffmpeg''
                   (scene_args (duration_sec (scs ! i)) (path (imgs ! i)) (audio_at auds i)
                      (seg_path tmp i))
                   tmp w of
              (Inl err, w') \<Rightarrow> (Inl err, w')
            | (Inr _, w') \<Rightarrow>
                encode_scenes e tmp scs imgs auds (Suc i) (segmentFiles @ [seg_path tmp i]) w')
         else (Inl TypeError, w))
      else (Inr segmentFiles, w))"
  by pat_completeness auto
termination
  by (relation "measure (\<lambda>(e, tmp, scs, imgs, auds, i, segmentFiles, w). length scs - i)") auto

declare encode_scenes.simps [simp del]

text \<open>Lines 86 to 92: the list file, the concat run, and reading the output.\<close>

definition concat_segments :: "env \<Rightarrow> string \<Rightarrow> string list \<Rightarrow> world \<Rightarrow> (error + string) \<times> world" where
  "concat_segments e tmp segmentFiles w =
     (let listFile = path_join tmp ''list.txt'' in
      case writeFileSync listFile (list_content segmentFiles) w of
        (Inl err, w1) \<Rightarrow> (Inl err, w1)
      | (Inr _, w1) \<Rightarrow>
         (let out = path_join tmp ''output.mp4'' in
          case run e ''ffmpeg'' (concat_args listFile out) tmp w1 of
            (Inl err, w2) \<Rightarrow> (Inl err, w2)
          | (Inr _, w2) \<Rightarrow>
             (case readFileSync out w2 of
                Inl err \<Rightarrow> (Inl err, w2)
              | Inr buf \<Rightarrow> (Inr buf, w2))))"

text \<open>
  Lines 95 to 98: unlink every uploaded file, then remove the directory tree; an
  exception inside the block ends it and is swallowed.
\<close>

definition cleanup :: "string \<Rightarrow> upload_file list \<Rightarrow> world \<Rightarrow> world" where
  "cleanup tmp fls w =
     (case unlink_each (map path fls) (fs w) of
        (True, f) \<Rightarrow> w\<lparr>fs := rmSync tmp f\<rparr>
      | (False, f) \<Rightarrow> w\<lparr>fs := f\<rparr>)"

definition renderMp4 :: "env \<Rightarrow> render_input \<Rightarrow> world \<Rightarrow> (error + string) \<times> world" where
  "renderMp4 e inp w =
     (case parse_manifest (manifestJson inp) of
        Inl err \<Rightarrow> (Inl err, w)
      | Inr m \<Rightarrow>
         (case open_workspace e w of
            (Inl err, w1) \<Rightarrow> (Inl err, w1)
          | (Inr tmp, w1) \<Rightarrow>
             (case files inp of
                None \<Rightarrow> (Inl TypeError, w1)
              | Some fl \<Rightarrow>
                 (case stage e fl of (imgs, auds) \<Rightarrow>
                    if length imgs \<noteq> length (scenes m)
                    then (Inl (ImagesCountError (length imgs) (length (scenes m))), w1)
                    else
                      (case encode_scenes e tmp (scenes m) imgs auds 0 [] w1 of
                         (Inl err, w2) \<Rightarrow> (Inl err, w2)
                       | (Inr segmentFiles, w2) \<Rightarrow>
                          (case concat_segments e tmp segmentFiles w2 of
                             (Inl err, w3) \<Rightarrow> (Inl err, w3)
                           | (Inr buf, w3) \<Rightarrow> (Inr buf, cleanup tmp (imgs @ auds) w3)))))))"

subsection \<open>Reading the log of a render\<close>

text \<open>The arguments line 81 passes to the encoder for scene \<open>i\<close>.\<close>

definition scene_call ::
  "string \<Rightarrow> scene list \<Rightarrow> upload_file list \<Rightarrow> upload_file list \<Rightarrow> nat \<Rightarrow> arg list" where
  "scene_call tmp scs imgs auds i =
     scene_args (duration_sec (scs ! i)) (path (imgs ! i)) (audio_at auds i) (seg_path tmp i)"

text \<open>An event that is not a child process closing with a code other than 0.\<close>

fun exit_ok :: "event \<Rightarrow> bool" where
  "exit_ok (Spawn cmd args cwd c s) = (c = Some 0)"
| "exit_ok (WriteFile p d) = True"

text \<open>The event is a run of \<^verbatim>\<open>ffmpeg\<close> with these arguments in this directory.\<close>

fun is_spawn_of :: "string \<Rightarrow> arg list \<Rightarrow> event \<Rightarrow> bool" where
  "is_spawn_of cwd args (Spawn cmd a d c s) = (cmd = ''ffmpeg'' \<and> a = args \<and> d = cwd)"
| "is_spawn_of cwd args (WriteFile p d) = False"

subsection \<open>Sample inputs\<close>

text \<open>Comparison of two strings byte by byte, one possible collation.\<close>

fun compare_bytes :: "string \<Rightarrow> string \<Rightarrow> int" where
  "compare_bytes [] [] = 0"
| "compare_bytes [] (y # ys) = - 1"
| "compare_bytes (x # xs) [] = 1"
| "compare_bytes (x # xs) (y # ys) =
     (if (of_char x :: nat) < of_char y then - 1
      else if (of_char y :: nat) < of_char x then 1
      else compare_bytes xs ys)"

text \<open>An encoder that always closes with code 0 and leaves the bytes \<open>v\<close>.\<close>

definition sample_env :: env where
  "sample_env =
     \<lparr>mkdtempSync = Some ''/t/cs'', localeCompare = compare_bytes,
      ffmpeg = (\<lambda>args f. \<lparr>exit_code = Some 0, stderr_text = [], written = Some ''v''\<rparr>)\<rparr>"

definition sample_manifest :: json where
  "sample_manifest =
     JObj [(''scenes'', JArr [JObj [(''duration_sec'', JNum (Fin 5))],
                              JObj [(''duration_sec'', JNum (Fin 8)), (''hasAudio'', JBool True)]])]"

text \<open>Three uploaded files on disk, no temporary directory.\<close>

definition sample_world :: world where
  "sample_world =
     \<lparr>fs = [''/u/1'' \<mapsto> File ''png'', ''/u/2'' \<mapsto> File ''png'', ''/u/3'' \<mapsto> File ''mp3''],
      log = []\<rparr>"

text \<open>A request with two scenes in the manifest and one image.\<close>

definition one_image :: render_input where
  "one_image =
     \<lparr>files = Some \<lparr>images = Some [\<lparr>originalname = ''a.png'', path = ''/u/1''\<rparr>], audios = None\<rparr>,
      manifestJson = Some sample_manifest\<rparr>"

definition img_a :: upload_file where
  "img_a = \<lparr>originalname = ''a.png'', path = ''/u/1''\<rparr>"

definition img_b :: upload_file where
  "img_b = \<lparr>originalname = ''b.png'', path = ''/u/2''\<rparr>"

definition aud_a :: upload_file where
  "aud_a = \<lparr>originalname = ''a.mp3'', path = ''/u/3''\<rparr>"

text \<open>
  A request with two images, uploaded in the order b, a, and one audio file, for the
  two scenes of \<open>sample_manifest\<close>. The manifest says \<^verbatim>\<open>hasAudio\<close> for the second
  scene; the audio file is the first of its list.
\<close>

definition two_images_upload :: upload_files where
  "two_images_upload = \<lparr>images = Some [img_b, img_a], audios = Some [aud_a]\<rparr>"

definition two_images :: render_input where
  "two_images = \<lparr>files = Some two_images_upload, manifestJson = Some sample_manifest\<rparr>"

definition sample_parsed :: manifest where
  "sample_parsed = \<lparr>scenes = [\<lparr>duration_sec = Fin 5, hasAudio = False\<rparr>,
                              \<lparr>duration_sec = Fin 8, hasAudio = True\<rparr>]\<rparr>"



text \<open>
  An encoder that closes with code 1 and the stderr text \<open>boom\<close> whenever the string
  \<open>p\<close> is among its arguments, and succeeds otherwise.
\<close>

definition failing_at :: "string \<Rightarrow> env" where
  "failing_at p =
     \<lparr>mkdtempSync = Some ''/t/cs'', localeCompare = compare_bytes,
      ffmpeg = (\<lambda>args f. if Lit p \<in> set args
                  then \<lparr>exit_code = Some 1, stderr_text = ''boom'', written = None\<rparr>
                  else \<lparr>exit_code = Some 0, stderr_text = [], written = Some ''v''\<rparr>)\<rparr>"

text \<open>Two uploaded files with the same original name.\<close>

definition same_name_1 :: upload_file where
  "same_name_1 = \<lparr>originalname = ''a.png'', path = ''/u/1''\<rparr>"

definition same_name_2 :: upload_file where
  "same_name_2 = \<lparr>originalname = ''a.png'', path = ''/u/2''\<rparr>"

text \<open>
  A comparison that looks at the letters without regard to case first, as the locale
  collations of the platform do, and among names that differ in case only puts the
  lower case letter first. It is another possible \<^verbatim>\<open>localeCompare\<close>.
\<close>

definition fold_case :: "char \<Rightarrow> char" where
  "fold_case c =
     (if (65::nat) \<le> of_char c \<and> (of_char c :: nat) \<le> 90 then char_of ((of_char c :: nat) + 32) else c)"

definition compare_collated :: "string \<Rightarrow> string \<Rightarrow> int" where
  "compare_collated a b =
     (if compare_bytes (map fold_case a) (map fold_case b) = 0 then compare_bytes b a
      else compare_bytes (map fold_case a) (map fold_case b))"

definition collating_env :: env where
  "collating_env = sample_env\<lparr>localeCompare := compare_collated\<rparr>"

definition upper_b :: upload_file where
  "upper_b = \<lparr>originalname = ''B.png'', path = ''/u/1''\<rparr>"

definition lower_a :: upload_file where
  "lower_a = \<lparr>originalname = ''a.png'', path = ''/u/2''\<rparr>"

text \<open>
  An encoder that joins. Run with arguments that start with \<^verbatim>\<open>-y -f concat\<close> it reads
  the list file named by its seventh argument, takes from every line \<^verbatim>\<open>file '...'\<close>
  the path between the quotes, and leaves the bytes of these files one after the other
  in the order of the lines; it closes with code 1 when the list file or a listed file
  is missing. Run with any other arguments it leaves the bytes \<open>[p]\<close>, where \<open>p\<close> is
  its fifth argument: in a scene's run, the path of the image.
\<close>

fun split_on :: "char \<Rightarrow> string \<Rightarrow> string list" where
  "split_on c [] = [[]]"
| "split_on c (x # xs) =
     (if x = c then [] # split_on c xs
      else (case split_on c xs of [] \<Rightarrow> [[x]] | l # ls \<Rightarrow> (x # l) # ls))"

definition listed_path :: "string \<Rightarrow> string" where
  "listed_path l = butlast (drop 6 l)"

definition file_bytes :: "filesystem \<Rightarrow> string \<Rightarrow> string option" where
  "file_bytes f p = (case f p of Some (File d) \<Rightarrow> Some d | _ \<Rightarrow> None)"

definition joining_env :: env where
  "joining_env =
     \<lparr>mkdtempSync = Some ''/t/cs'', localeCompare = compare_bytes,
      ffmpeg = (\<lambda>args f.
        if take 3 args = [Lit ''-y'', Lit ''-f'', Lit ''concat''] then
          (case args ! 6 of
             Lit l \<Rightarrow>
               (case file_bytes f l of
                  Some s \<Rightarrow>
                    (let parts = map (file_bytes f) (map listed_path (split_on (CHR 0x0A) s)) in
                     if None \<in> set parts
                     then \<lparr>exit_code = Some 1, stderr_text = ''No such file'', written = None\<rparr>
                     else \<lparr>exit_code = Some 0, stderr_text = [], written = Some (concat (map the parts))\<rparr>)
                | None \<Rightarrow> \<lparr>exit_code = Some 1, stderr_text = ''No such file'', written = None\<rparr>)
           | Num d \<Rightarrow> \<lparr>exit_code = Some 1, stderr_text = ''No such file'', written = None\<rparr>)
        else
          (case args ! 4 of
             Lit p \<Rightarrow> \<lparr>exit_code = Some 0, stderr_text = [], written = Some (''['' @ p @ '']'')\<rparr>
           | Num d \<Rightarrow> \<lparr>exit_code = Some 1, stderr_text = ''No such file'', written = None\<rparr>))\<rparr>"

subsection \<open>The shape of a log\<close>

text \<open>
  Either no child process of the log failed, or the last event is a child process that
  closed with a code other than 0, every event before it succeeded, and the result is
  the error of line 25 with that code and that stderr text.
\<close>

definition fatal_shape :: "error + 'a \<Rightarrow> event list \<Rightarrow> bool" where
  "fatal_shape r evs \<longleftrightarrow>
     list_all exit_ok evs \<or>
     (\<exists>evs0 cmd args cwd c s. evs = evs0 @ [Spawn cmd args cwd c s] \<and> list_all exit_ok evs0 \<and>
        c \<noteq> Some 0 \<and> r = Inl (FfmpegFailed c s))"

subsection \<open>How the encoder reads its arguments\<close>



subsection \<open>Conditions on the environment\<close>



text \<open>
  A comparison function that orders: any two values compare one way or the other, the
  order is transitive, and two values that compare both ways compare as equal.
\<close>

definition consistent_compare :: "('a \<Rightarrow> 'a \<Rightarrow> int) \<Rightarrow> bool" where
  "consistent_compare cmp \<longleftrightarrow>
     (\<forall>a b. cmp a b \<le> 0 \<or> cmp b a \<le> 0) \<and>
     (\<forall>a b c. cmp a b \<le> 0 \<and> cmp b c \<le> 0 \<longrightarrow> cmp a c \<le> 0) \<and>
     (\<forall>a b. cmp a b \<le> 0 \<and> cmp b a \<le> 0 \<longrightarrow> cmp a b = 0)"

text \<open>No two different files of the list have names that compare as equal.\<close>

definition no_ties :: "env \<Rightarrow> upload_file list \<Rightarrow> bool" where
  "no_ties e xs \<longleftrightarrow>
     (\<forall>a \<in> set xs. \<forall>b \<in> set xs. a \<noteq> b \<longrightarrow> localeCompare e (originalname a) (originalname b) \<noteq> 0)"

section \<open>Properties\<close>

subsection \<open>Manifest validation\<close>

lemmas manifest_defs =
  parse_manifest_def Manifest_def z_object_def z_array_min_def z_array_def Scene_def
  z_max_def z_min_def z_number_def z_default_def z_optional_def z_boolean_def

lemma Scene_char:
  "Scene (Some j) = (if spec_scene_ok j then Inr (spec_scene j) else Inl ZodError)"
  by (cases j)
     (auto simp: Scene_def z_object_def z_max_def z_min_def z_number_def z_default_def
        z_optional_def z_boolean_def
        split: option.splits json.splits jsnum.splits sum.splits)

lemma z_elements_Scene:
  "z_elements Scene js =
     (if list_all spec_scene_ok js then Inr (map spec_scene js) else Inl ZodError)"
  by (induction js) (auto simp: Scene_char)

lemma parse_manifest_char:
  "parse_manifest (Some j) =
     (if spec_manifest_ok j then Inr \<lparr>scenes = map spec_scene (scenes_of j)\<rparr>
      else Inl ZodError)"
  by (cases j)
     (auto simp: parse_manifest_def Manifest_def z_object_def z_array_min_def z_array_def
        z_elements_Scene split: option.splits json.splits)

text \<open>
  Claim C5. \<^verbatim>\<open>Manifest.parse\<close> accepts a JSON value exactly when it is an object whose
  \<^verbatim>\<open>scenes\<close> is an array of at least one element, each an object with a numeric
  \<^verbatim>\<open>duration_sec\<close> in [1, 60] and a \<^verbatim>\<open>hasAudio\<close> that is absent or a boolean. The
  accepted manifest has one scene per element, with the element's duration and with
  \<^verbatim>\<open>hasAudio\<close> false where the element has none. Every other value is rejected with
  the validation error.
\<close>

theorem Manifest_accepts_iff_spec:
  "parse_manifest (Some j) =
     (if spec_manifest_ok j then Inr \<lparr>scenes = map spec_scene (scenes_of j)\<rparr>
      else Inl ZodError)"
  by (rule parse_manifest_char)

theorem Manifest_accepts_iff_spec_witness:
  "parse_manifest (Some (JObj [(''scenes'', JArr [JObj [(''duration_sec'', JNum (Fin 5))]])]))
     = Inr \<lparr>scenes = [\<lparr>duration_sec = Fin 5, hasAudio = False\<rparr>]\<rparr>
   \<and> parse_manifest (Some (JObj [(''scenes'', JArr [])])) = Inl ZodError"
  using Manifest_accepts_iff_spec [of "JObj [(''scenes'', JArr [JObj [(''duration_sec'', JNum (Fin 5))]])]"]
        Manifest_accepts_iff_spec [of "JObj [(''scenes'', JArr [])]"]
  by simp

lemma spec_scene_duration:
  "spec_scene_ok j \<Longrightarrow> \<exists>d. duration_sec (spec_scene j) = Fin d \<and> 1 \<le> d \<and> d \<le> 60"
  by (cases j) (auto split: option.splits json.splits jsnum.splits)

lemma spec_manifest_ok_scenes: "spec_manifest_ok j \<Longrightarrow> list_all spec_scene_ok (scenes_of j)"
  by (cases j) (auto split: option.splits json.splits)

lemma valid_durations:
  assumes "parse_manifest x = Inr m" and "i < length (scenes m)"
  shows "\<exists>d. duration_sec (scenes m ! i) = Fin d \<and> 1 \<le> d \<and> d \<le> 60"
proof -
  from assms(1) obtain j where x: "x = Some j" by (cases x) (auto simp: parse_manifest_def)
  with assms(1) have ok: "spec_manifest_ok j" and m: "m = \<lparr>scenes = map spec_scene (scenes_of j)\<rparr>"
    by (auto simp: parse_manifest_char split: if_splits)
  from assms(2) m have i: "i < length (scenes_of j)" by simp
  with spec_manifest_ok_scenes [OF ok] have "spec_scene_ok (scenes_of j ! i)"
    by (simp add: list_all_length)
  from spec_scene_duration [OF this] show ?thesis using m i by simp
qed

subsection \<open>What happens before the first child process\<close>

lemma mkdirSync_log: "mkdirSync p w = (r, w') \<Longrightarrow> log w' = log w"
  by (auto simp: mkdirSync_def split: if_splits)

lemma open_workspace_log: "open_workspace e w = (r, w') \<Longrightarrow> log w' = log w"
  by (auto simp: open_workspace_def split: option.splits prod.splits sum.splits
      dest!: mkdirSync_log)

lemma length_insert_by: "length (insert_by cmp x xs) = Suc (length xs)"
  by (induction xs) auto

lemma length_js_sort: "length (js_sort cmp xs) = length xs"
  by (induction xs) (auto simp: js_sort_def length_insert_by)

text \<open>
  Claim C10. When JSON.parse or \<^verbatim>\<open>Manifest.parse\<close> throws, \<^verbatim>\<open>renderMp4\<close> throws that
  error and the world is the one it started in: no temporary directory, no other change
  of the file system, no child process.
\<close>

theorem invalid_manifest_no_effect:
  "parse_manifest (manifestJson inp) = Inl err \<Longrightarrow> renderMp4 e inp w = (Inl err, w)"
  by (simp add: renderMp4_def)

theorem invalid_manifest_no_effect_witness:
  "parse_manifest (manifestJson (one_image\<lparr>manifestJson := None\<rparr>)) = Inl SyntaxError \<and>
   renderMp4 sample_env (one_image\<lparr>manifestJson := None\<rparr>) sample_world
     = (Inl SyntaxError, sample_world)"
  using invalid_manifest_no_effect
          [of "one_image\<lparr>manifestJson := None\<rparr>" SyntaxError sample_env sample_world]
  by (simp add: parse_manifest_def)

text \<open>
  Claim C6. With a valid manifest of N scenes and a number of images other than N,
  \<^verbatim>\<open>renderMp4\<close> throws and its log is the log it started with: no child process was
  spawned. When the temporary directory could be set up, the error is the one of
  line 44, carrying both counts.
\<close>

theorem image_count_mismatch_no_spawn:
  assumes "parse_manifest (manifestJson inp) = Inr m"
    and "files inp = Some fl"
    and "length (or_empty (images fl)) \<noteq> length (scenes m)"
  shows "(\<exists>err. fst (renderMp4 e inp w) = Inl err) \<and>
         log (snd (renderMp4 e inp w)) = log w \<and>
         (\<forall>tmp w1. open_workspace e w = (Inr tmp, w1) \<longrightarrow>
            renderMp4 e inp w =
              (Inl (ImagesCountError (length (or_empty (images fl))) (length (scenes m))), w1))"
proof (cases "open_workspace e w")
  case (Pair r w1)
  have lg: "log w1 = log w" using Pair by (rule open_workspace_log)
  show ?thesis
  proof (cases r)
    case (Inl err)
    then show ?thesis using assms Pair lg by (simp add: renderMp4_def)
  next
    case (Inr tmp)
    then show ?thesis using assms Pair lg
      by (simp add: renderMp4_def stage_def length_js_sort)
  qed
qed

theorem image_count_mismatch_no_spawn_witness:
  "parse_manifest (manifestJson one_image) =
     Inr \<lparr>scenes = [\<lparr>duration_sec = Fin 5, hasAudio = False\<rparr>,
                    \<lparr>duration_sec = Fin 8, hasAudio = True\<rparr>]\<rparr> \<and>
   fst (renderMp4 sample_env one_image sample_world) = Inl (ImagesCountError 1 2) \<and>
   log (snd (renderMp4 sample_env one_image sample_world)) = []"
proof -
  let ?m = "\<lparr>scenes = [\<lparr>duration_sec = Fin 5, hasAudio = False\<rparr>,
                        \<lparr>duration_sec = Fin 8, hasAudio = True\<rparr>]\<rparr>"
  let ?fl = "\<lparr>images = Some [\<lparr>originalname = ''a.png'', path = ''/u/1''\<rparr>], audios = None\<rparr>"
  have p: "parse_manifest (manifestJson one_image) = Inr ?m"
    by (simp add: one_image_def sample_manifest_def manifest_defs)
  have f: "files one_image = Some ?fl" by (simp add: one_image_def)
  have n: "length (or_empty (images ?fl)) \<noteq> length (scenes ?m)" by (simp add: or_empty_def)
  have o: "\<exists>w1. open_workspace sample_env sample_world = (Inr ''/t/cs'', w1)"
    by (simp add: open_workspace_def sample_env_def sample_world_def mkdirSync_def path_join_def)
  from image_count_mismatch_no_spawn [OF p f n, of sample_env sample_world] o p
  show ?thesis by (auto simp: or_empty_def sample_world_def)
qed

subsection \<open>Facts about the sample runs\<close>

lemmas sample_defs =
  sample_env_def sample_world_def sample_manifest_def two_images_def two_images_upload_def
  img_a_def img_b_def aud_a_def one_image_def failing_at_def

lemma sample_parse: "parse_manifest (manifestJson two_images) = Inr sample_parsed"
  by (simp add: two_images_def sample_manifest_def sample_parsed_def manifest_defs)


lemma sample_stage: "stage sample_env two_images_upload = ([img_a, img_b], [aud_a])"
  by (simp add: stage_def or_empty_def js_sort_def by_originalname_def sample_defs)

lemma sample_files: "files two_images = Some two_images_upload"
  by (simp add: two_images_def)

lemma sample_tmp: "mkdtempSync sample_env = Some ''/t/cs''"
  by (simp add: sample_env_def)

lemma sample_log_start: "log sample_world = []"
  by (simp add: sample_world_def)

lemma sample_result: "fst (renderMp4 sample_env two_images sample_world) = Inr ''v''"
  by code_simp

lemma sample_run:
  "renderMp4 sample_env two_images sample_world =
     (Inr ''v'', snd (renderMp4 sample_env two_images sample_world))"
  using sample_result by (simp add: prod_eq_iff)

lemma sample_log:
  "log (snd (renderMp4 sample_env two_images sample_world)) =
     [Spawn ''ffmpeg'' (scene_args (Fin 5) ''/u/1'' (Some ''/u/3'') ''/t/cs/seg_000.mp4'') ''/t/cs'' (Some 0) [],
      Spawn ''ffmpeg'' (scene_args (Fin 8) ''/u/2'' None ''/t/cs/seg_001.mp4'') ''/t/cs'' (Some 0) [],
      WriteFile ''/t/cs/list.txt'' (list_content [''/t/cs/seg_000.mp4'', ''/t/cs/seg_001.mp4'']),
      Spawn ''ffmpeg'' (concat_args ''/t/cs/list.txt'' ''/t/cs/output.mp4'') ''/t/cs'' (Some 0) []]"
  by code_simp

lemma failing_log:
  "log (snd (renderMp4 (failing_at ''/u/2'') two_images sample_world)) =
     [Spawn ''ffmpeg'' (scene_args (Fin 5) ''/u/1'' (Some ''/u/3'') ''/t/cs/seg_000.mp4'') ''/t/cs'' (Some 0) [],
      Spawn ''ffmpeg'' (scene_args (Fin 8) ''/u/2'' None ''/t/cs/seg_001.mp4'') ''/t/cs'' (Some 1) ''boom'']"
  by code_simp



subsection \<open>A failing child process ends the render\<close>

lemma run_result:
  "run e cmd args cwd w = (r, w') \<Longrightarrow>
     log w' = log w @ [Spawn cmd args cwd (exit_code (ffmpeg e args (fs w))) (stderr_text (ffmpeg e args (fs w)))] \<and>
     r = (if exit_code (ffmpeg e args (fs w)) = Some 0 then Inr ()
          else Inl (FfmpegFailed (exit_code (ffmpeg e args (fs w))) (stderr_text (ffmpeg e args (fs w)))))"
  by (auto simp: run_def Let_def split: if_splits)

lemma fatal_shape_Inr: "fatal_shape (Inr x) evs \<Longrightarrow> list_all exit_ok evs"
  by (auto simp: fatal_shape_def)

lemma fatal_shape_append:
  "list_all exit_ok evs1 \<Longrightarrow> fatal_shape r evs2 \<Longrightarrow> fatal_shape r (evs1 @ evs2)"
  unfolding fatal_shape_def
  apply (erule disjE)
   apply simp
  apply (rule disjI2)
  apply clarify
  subgoal for evs0 cmd args cwd c s
    by (rule exI [of _ "evs1 @ evs0"]) auto
  done

lemma fatal_shape_no_events: "fatal_shape r []"
  by (simp add: fatal_shape_def)

lemma fatal_shape_Inl_cong: "fatal_shape (Inl err :: error + 'a) evs \<Longrightarrow> fatal_shape (Inl err :: error + 'b) evs"
  by (auto simp: fatal_shape_def)

lemma run_fatal_shape:
  assumes "run e cmd args cwd w = (r, w')"
  shows "\<exists>ev. log w' = log w @ [ev] \<and> fatal_shape r [ev]"
proof -
  let ?c = "exit_code (ffmpeg e args (fs w))" and ?s = "stderr_text (ffmpeg e args (fs w))"
  from run_result [OF assms] have l: "log w' = log w @ [Spawn cmd args cwd ?c ?s]"
    and r: "r = (if ?c = Some 0 then Inr () else Inl (FfmpegFailed ?c ?s))" by auto
  have "fatal_shape r [Spawn cmd args cwd ?c ?s]"
  proof (cases "?c = Some 0")
    case True then show ?thesis by (simp add: fatal_shape_def)
  next
    case False
    then have "[Spawn cmd args cwd ?c ?s] = [] @ [Spawn cmd args cwd ?c ?s] \<and> list_all exit_ok [] \<and> ?c \<noteq> Some 0 \<and> r = Inl (FfmpegFailed ?c ?s)"
      using r by simp
    then show ?thesis unfolding fatal_shape_def by blast
  qed
  with l show ?thesis by blast
qed

lemma encode_scenes_fatal_shape:
  assumes "encode_scenes e tmp scs imgs auds i segs w = (r, w')"
  shows "\<exists>evs. log w' = log w @ evs \<and> fatal_shape r evs"
  using assms
proof (induction e tmp scs imgs auds i segs w rule: encode_scenes.induct)
  case (1 e tmp scs imgs auds i segs w)
  show ?case
  proof (cases "i < length scs \<and> i < length imgs")
    case False
    with "1.prems" have "log w' = log w @ []"
      by (auto simp: encode_scenes.simps [of e tmp scs imgs auds i] split: if_splits)
    then show ?thesis using fatal_shape_no_events by blast
  next
    case True
    obtain r1 w1 where rn: "run e ''ffmpeg'' (scene_call tmp scs imgs auds i) tmp w = (r1, w1)"
      by fastforce
    from run_fatal_shape [OF rn] obtain ev where ev: "log w1 = log w @ [ev]" "fatal_shape r1 [ev]"
      by blast
    show ?thesis
    proof (cases r1)
      case (Inl err)
      with True rn "1.prems" have "r = Inl err" "w' = w1"
        by (auto simp: encode_scenes.simps [of e tmp scs imgs auds i] scene_call_def)
      then show ?thesis using ev Inl fatal_shape_Inl_cong by blast
    next
      case (Inr u)
      with True rn "1.prems" have rec: "encode_scenes e tmp scs imgs auds (Suc i) (segs @ [seg_path tmp i]) w1 = (r, w')"
        by (auto simp: encode_scenes.simps [of e tmp scs imgs auds i] scene_call_def)
      have "\<exists>evs. log w' = log w1 @ evs \<and> fatal_shape r evs"
        using "1.IH" [OF _ _ _ _ rec] True rn Inr by (auto simp: scene_call_def)
      then obtain evs where evs: "log w' = log w1 @ evs" "fatal_shape r evs" by blast
      have "list_all exit_ok [ev]" using ev(2) Inr by (auto simp: fatal_shape_def)
      then have "fatal_shape r ([ev] @ evs)" using evs(2) by (rule fatal_shape_append)
      then show ?thesis using ev(1) evs(1) by auto
    qed
  qed
qed

lemma writeFileSync_result:
  "writeFileSync p d w = (r, w') \<Longrightarrow>
     (r = Inl FsError \<and> w' = w \<and> fs w p = Some Dir) \<or>
     (r = Inr () \<and> fs w p \<noteq> Some Dir \<and> w' = \<lparr>fs = (fs w)(p \<mapsto> File d), log = log w @ [WriteFile p d]\<rparr>)"
  by (auto simp: writeFileSync_def split: if_splits)

lemma concat_segments_fatal_shape:
  assumes "concat_segments e tmp segs w = (r, w')"
  shows "\<exists>evs. log w' = log w @ evs \<and> fatal_shape r evs"
proof -
  let ?lf = "path_join tmp ''list.txt''" and ?out = "path_join tmp ''output.mp4''"
  obtain r1 w1 where wf: "writeFileSync ?lf (list_content segs) w = (r1, w1)" by fastforce
  show ?thesis
  proof (cases r1)
    case (Inl err)
    with wf assms writeFileSync_result [OF wf] have "log w' = log w @ []"
      by (auto simp: concat_segments_def Let_def)
    then show ?thesis using fatal_shape_no_events by blast
  next
    case (Inr u)
    with writeFileSync_result [OF wf]
    have l1: "log w1 = log w @ [WriteFile ?lf (list_content segs)]" by auto
    obtain r2 w2 where rn: "run e ''ffmpeg'' (concat_args ?lf ?out) tmp w1 = (r2, w2)" by fastforce
    from run_fatal_shape [OF rn] obtain ev where ev: "log w2 = log w1 @ [ev]" "fatal_shape r2 [ev]"
      by blast
    have w': "w' = w2" using assms wf Inr rn
      by (auto simp: concat_segments_def Let_def split: sum.splits)
    have "fatal_shape r [ev]"
    proof (cases r2)
      case (Inl err)
      then have "r = Inl err" using assms wf Inr rn by (auto simp: concat_segments_def Let_def)
      then show ?thesis using ev(2) Inl fatal_shape_Inl_cong by blast
    next
      case (Inr u2)
      then have "list_all exit_ok [ev]" using ev(2) by (auto simp: fatal_shape_def)
      then show ?thesis by (simp add: fatal_shape_def)
    qed
    then have "fatal_shape r ([WriteFile ?lf (list_content segs)] @ [ev])"
      by (intro fatal_shape_append) simp_all
    then show ?thesis using l1 ev(1) w' by auto
  qed
qed

lemma cleanup_log: "log (cleanup tmp fls w) = log w"
  by (simp add: cleanup_def split: prod.splits bool.splits)

lemma renderMp4_fatal_shape:
  assumes "renderMp4 e inp w = (r, w')"
  shows "\<exists>evs. log w' = log w @ evs \<and> fatal_shape r evs"
proof (cases "parse_manifest (manifestJson inp)")
  case (Inl err)
  with assms have "log w' = log w @ []" by (simp add: renderMp4_def)
  then show ?thesis using fatal_shape_no_events by blast
next
  case (Inr m)
  obtain r1 w1 where ow: "open_workspace e w = (r1, w1)" by fastforce
  have l1: "log w1 = log w" using ow by (rule open_workspace_log)
  show ?thesis
  proof (cases "\<exists>tmp fl. r1 = Inr tmp \<and> files inp = Some fl \<and> length (fst (stage e fl)) = length (scenes m)")
    case False
    with assms Inr ow have "log w' = log w1 @ []"
      by (auto simp: renderMp4_def split: sum.splits option.splits prod.splits if_splits)
    then show ?thesis using l1 fatal_shape_no_events by (metis append_Nil2)
  next
    case True
    then obtain tmp fl where t: "r1 = Inr tmp" "files inp = Some fl"
      "length (fst (stage e fl)) = length (scenes m)" by blast
    obtain imgs auds where sg: "stage e fl = (imgs, auds)" by fastforce
    obtain r2 w2 where en: "encode_scenes e tmp (scenes m) imgs auds 0 [] w1 = (r2, w2)" by fastforce
    from encode_scenes_fatal_shape [OF en] obtain evs2 where
      e2: "log w2 = log w1 @ evs2" "fatal_shape r2 evs2" by blast
    show ?thesis
    proof (cases r2)
      case (Inl err)
      with assms Inr ow t sg en have "r = Inl err" "w' = w2" by (auto simp: renderMp4_def)
      then show ?thesis using e2 l1 Inl fatal_shape_Inl_cong by (metis)
    next
      case (Inr segs)
      obtain r3 w3 where cs: "concat_segments e tmp segs w2 = (r3, w3)" by fastforce
      from concat_segments_fatal_shape [OF cs] obtain evs3 where
        e3: "log w3 = log w2 @ evs3" "fatal_shape r3 evs3" by blast
      have ok2: "list_all exit_ok evs2" using e2(2) Inr by (auto simp: fatal_shape_def)
      have "log w' = log w3 \<and> r = r3"
        using assms \<open>parse_manifest (manifestJson inp) = Inr m\<close> ow t sg en Inr cs
        by (auto simp: renderMp4_def cleanup_log split: sum.splits)
      moreover have "fatal_shape r3 (evs2 @ evs3)" using ok2 e3(2) by (rule fatal_shape_append)
      ultimately show ?thesis using e2(1) e3(1) l1 by auto
    qed
  qed
qed

text \<open>
  Claim C7, as the code has it. When a child process of a render, for a scene or for the
  concatenation, closes with a code other than 0, \<^verbatim>\<open>renderMp4\<close> throws the error of
  line 25, which carries that exit code and the whole stderr text of that process; the
  failing run is the last event of the log, so nothing is spawned after it (no retry, no
  later scene, no concatenation), every run before it had succeeded, and no bytes are
  returned. The error has one shape for both kinds of run and holds no scene index.
\<close>

theorem subprocess_failure_is_fatal:
  assumes "renderMp4 e inp w = (r, w')"
    and "log w' = log w @ evs"
    and "Spawn cmd args cwd c s \<in> set evs"
    and "c \<noteq> Some 0"
  shows "r = Inl (FfmpegFailed c s) \<and> last evs = Spawn cmd args cwd c s \<and>
         list_all exit_ok (butlast evs)"
proof -
  from renderMp4_fatal_shape [OF assms(1)] assms(2) have sh: "fatal_shape r evs" by auto
  have "\<not> exit_ok (Spawn cmd args cwd c s)" using assms(4) by simp
  then have "\<not> list_all exit_ok evs" using assms(3) unfolding list_all_iff by blast
  with sh obtain evs0 cmd' args' cwd' c' s' where
    d: "evs = evs0 @ [Spawn cmd' args' cwd' c' s']" "list_all exit_ok evs0" "c' \<noteq> Some 0"
       "r = Inl (FfmpegFailed c' s')"
    unfolding fatal_shape_def by blast
  have "Spawn cmd args cwd c s \<notin> set evs0" using d(2) assms(4) by (auto simp: list_all_iff)
  with assms(3) d(1) have "Spawn cmd args cwd c s = Spawn cmd' args' cwd' c' s'" by auto
  with d show ?thesis by simp
qed

theorem subprocess_failure_is_fatal_witness:
  "Spawn ''ffmpeg'' (scene_args (Fin 8) ''/u/2'' None ''/t/cs/seg_001.mp4'') ''/t/cs'' (Some 1) ''boom''
     \<in> set (log (snd (renderMp4 (failing_at ''/u/2'') two_images sample_world))) \<and>
   Some (1::int) \<noteq> Some 0 \<and>
   fst (renderMp4 (failing_at ''/u/2'') two_images sample_world) = Inl (FfmpegFailed (Some 1) ''boom'') \<and>
   last (log (snd (renderMp4 (failing_at ''/u/2'') two_images sample_world))) =
     Spawn ''ffmpeg'' (scene_args (Fin 8) ''/u/2'' None ''/t/cs/seg_001.mp4'') ''/t/cs'' (Some 1) ''boom'' \<and>
   list_all exit_ok (butlast (log (snd (renderMp4 (failing_at ''/u/2'') two_images sample_world))))"
proof -
  let ?R = "renderMp4 (failing_at ''/u/2'') two_images sample_world"
  let ?ev = "Spawn ''ffmpeg'' (scene_args (Fin 8) ''/u/2'' None ''/t/cs/seg_001.mp4'') ''/t/cs'' (Some 1) ''boom''"
  have r: "?R = (fst ?R, snd ?R)" by simp
  have l: "log (snd ?R) = log sample_world @ log (snd ?R)" by (simp add: sample_log_start)
  have m: "?ev \<in> set (log (snd ?R))" by (simp add: failing_log)
  have n: "Some (1::int) \<noteq> Some 0" by simp
  from subprocess_failure_is_fatal [OF r l m n] m n show ?thesis by blast
qed

text \<open>
  Against claim C7 as stated (an error that carries the scene index): the error does not
  tell which run failed. A failure in scene 0, in scene 1 and in the concatenation, each
  after a different number of runs, all throw the same value.
\<close>

theorem failure_error_names_no_scene:
  "fst (renderMp4 (failing_at ''/u/1'') two_images sample_world) = Inl (FfmpegFailed (Some 1) ''boom'') \<and>
   length (log (snd (renderMp4 (failing_at ''/u/1'') two_images sample_world))) = 1 \<and>
   fst (renderMp4 (failing_at ''/u/2'') two_images sample_world) = Inl (FfmpegFailed (Some 1) ''boom'') \<and>
   length (log (snd (renderMp4 (failing_at ''/u/2'') two_images sample_world))) = 2 \<and>
   fst (renderMp4 (failing_at ''/t/cs/list.txt'') two_images sample_world) = Inl (FfmpegFailed (Some 1) ''boom'') \<and>
   length (log (snd (renderMp4 (failing_at ''/t/cs/list.txt'') two_images sample_world))) = 4"
  by code_simp

subsection \<open>The events of a render, in order\<close>

lemma encode_scenes_events:
  assumes "encode_scenes e tmp scs imgs auds i segs w = (r, w')" and "i \<le> length scs"
  shows "\<exists>k evs. i \<le> k \<and> k \<le> length scs \<and> log w' = log w @ evs \<and>
           list_all2 (\<lambda>ev j. is_spawn_of tmp (scene_call tmp scs imgs auds j) ev) evs [i..<k] \<and>
           (\<forall>segs'. r = Inr segs' \<longrightarrow>
              k = length scs \<and> segs' = segs @ map (seg_path tmp) [i..<length scs])"
  using assms
proof (induction e tmp scs imgs auds i segs w rule: encode_scenes.induct)
  case (1 e tmp scs imgs auds i segs w)
  let ?P = "\<lambda>ev j. is_spawn_of tmp (scene_call tmp scs imgs auds j) ev"
  show ?case
  proof (cases "i < length scs \<and> i < length imgs")
    case False
    with "1.prems" have "log w' = log w @ []" and "\<forall>segs'. r = Inr segs' \<longrightarrow> i = length scs \<and> segs' = segs"
      by (auto simp: encode_scenes.simps [of e tmp scs imgs auds i] split: if_splits)
    then show ?thesis using "1.prems"(2)
      by (intro exI [of _ i] exI [of _ "[]"]) auto
  next
    case True
    obtain r1 w1 where rn: "run e ''ffmpeg'' (scene_call tmp scs imgs auds i) tmp w = (r1, w1)"
      by fastforce
    note rr = run_result [OF rn]
    obtain ev where ev: "log w1 = log w @ [ev]" and evP: "?P ev i"
      using rr by auto
    show ?thesis
    proof (cases r1)
      case (Inl err)
      with True rn "1.prems" have "r = Inl err" "w' = w1"
        by (auto simp: encode_scenes.simps [of e tmp scs imgs auds i] scene_call_def)
      then show ?thesis using ev evP True
        by (intro exI [of _ "Suc i"] exI [of _ "[ev]"]) (auto simp: upt_rec [of i "Suc i"])
    next
      case (Inr u)
      with True rn "1.prems" have rec: "encode_scenes e tmp scs imgs auds (Suc i) (segs @ [seg_path tmp i]) w1 = (r, w')"
        by (auto simp: encode_scenes.simps [of e tmp scs imgs auds i] scene_call_def)
      from "1.IH" [OF _ _ _ _ rec] True rn Inr
      obtain k evs where k: "Suc i \<le> k" "k \<le> length scs" "log w' = log w1 @ evs"
        "list_all2 ?P evs [Suc i..<k]"
        "\<forall>segs'. r = Inr segs' \<longrightarrow> k = length scs \<and> segs' = (segs @ [seg_path tmp i]) @ map (seg_path tmp) [Suc i..<length scs]"
        by (auto simp: scene_call_def)
      have "[i..<k] = i # [Suc i..<k]" using k(1) by (simp add: upt_rec [of i k])
      moreover have "[i..<length scs] = i # [Suc i..<length scs]" using True by (simp add: upt_rec [of i "length scs"])
      ultimately show ?thesis using k ev evP
        by (intro exI [of _ k] exI [of _ "ev # evs"]) auto
    qed
  qed
qed

lemma concat_segments_events:
  assumes "concat_segments e tmp segs w = (Inr buf, w')"
  shows "\<exists>st. log w' = log w @
           [WriteFile (path_join tmp ''list.txt'') (list_content segs),
            Spawn ''ffmpeg'' (concat_args (path_join tmp ''list.txt'') (path_join tmp ''output.mp4'')) tmp (Some 0) st]"
proof -
  let ?lf = "path_join tmp ''list.txt''" and ?out = "path_join tmp ''output.mp4''"
  obtain r1 w1 where wf: "writeFileSync ?lf (list_content segs) w = (r1, w1)" by fastforce
  obtain r2 w2 where rn: "run e ''ffmpeg'' (concat_args ?lf ?out) tmp w1 = (r2, w2)" by fastforce
  from assms wf rn have ok: "r1 = Inr ()" "r2 = Inr ()" "w' = w2"
    by (auto simp: concat_segments_def Let_def split: sum.splits)
  from writeFileSync_result [OF wf] ok have l1: "log w1 = log w @ [WriteFile ?lf (list_content segs)]"
    by auto
  from run_result [OF rn] ok have
    "\<exists>st. log w2 = log w1 @ [Spawn ''ffmpeg'' (concat_args ?lf ?out) tmp (Some 0) st]"
    by (auto split: if_splits)
  with l1 ok show ?thesis by auto
qed

lemma open_workspace_tmp: "open_workspace e w = (Inr t, w1) \<Longrightarrow> mkdtempSync e = Some t"
  by (auto simp: open_workspace_def split: option.splits prod.splits sum.splits)

lemma renderMp4_events:
  assumes "renderMp4 e inp w = (r, w')"
    and "parse_manifest (manifestJson inp) = Inr m"
    and "files inp = Some fl"
    and "stage e fl = (imgs, auds)"
    and "mkdtempSync e = Some tmp"
  shows "\<exists>k evs rest. log w' = log w @ evs @ rest \<and> k \<le> length (scenes m) \<and>
     list_all2 (\<lambda>ev j. is_spawn_of tmp (scene_call tmp (scenes m) imgs auds j) ev) evs [0..<k] \<and>
     (rest = [] \<or> k = length (scenes m)) \<and>
     (\<forall>buf. r = Inr buf \<longrightarrow> length imgs = length (scenes m) \<and> k = length (scenes m) \<and>
         (\<exists>st. rest = [WriteFile (path_join tmp ''list.txt'') (list_content (map (seg_path tmp) [0..<k])),
                       Spawn ''ffmpeg'' (concat_args (path_join tmp ''list.txt'') (path_join tmp ''output.mp4'')) tmp (Some 0) st]))"
proof -
  let ?P = "\<lambda>ev j. is_spawn_of tmp (scene_call tmp (scenes m) imgs auds j) ev"
  obtain r1 w1 where ow: "open_workspace e w = (r1, w1)" by fastforce
  have l1: "log w1 = log w" using ow by (rule open_workspace_log)
  show ?thesis
  proof (cases "(\<exists>t. r1 = Inr t) \<and> length imgs = length (scenes m)")
    case False
    have "w' = w1 \<and> (\<exists>err. r = Inl err)"
    proof (cases r1)
      case (Inl err)
      with assms ow show ?thesis by (auto simp: renderMp4_def)
    next
      case (Inr t)
      with False have "length imgs \<noteq> length (scenes m)" by simp
      with Inr assms ow show ?thesis by (auto simp: renderMp4_def)
    qed
    then have "log w' = log w @ [] @ []" "\<forall>buf. r \<noteq> Inr buf" using l1 by auto
    then show ?thesis
      by (intro exI [of _ 0] exI [of _ "[]"]) simp
  next
    case True
    then obtain t where t: "r1 = Inr t" by blast
    with ow assms(5) have tt: "t = tmp" by (auto dest: open_workspace_tmp)
    obtain r2 w2 where en: "encode_scenes e tmp (scenes m) imgs auds 0 [] w1 = (r2, w2)" by fastforce
    from encode_scenes_events [OF en] obtain k evs where
      k: "k \<le> length (scenes m)" "log w2 = log w1 @ evs" "list_all2 ?P evs [0..<k]"
         "\<forall>segs'. r2 = Inr segs' \<longrightarrow> k = length (scenes m) \<and> segs' = [] @ map (seg_path tmp) [0..<length (scenes m)]"
      by auto
    show ?thesis
    proof (cases r2)
      case (Inl err)
      with assms ow t tt True en have "r = Inl err" "w' = w2" by (auto simp: renderMp4_def)
      then show ?thesis using k l1
        by (intro exI [of _ k] exI [of _ evs] exI [of _ "[]"]) auto
    next
      case (Inr segs)
      with k(4) have kk: "k = length (scenes m)" "segs = map (seg_path tmp) [0..<k]" by auto
      obtain r3 w3 where cs: "concat_segments e tmp segs w2 = (r3, w3)" by fastforce
      from concat_segments_fatal_shape [OF cs] obtain rest where rest: "log w3 = log w2 @ rest" by blast
      have fin: "log w' = log w3" "r = r3"
        using assms ow t tt True en Inr cs
        by (auto simp: renderMp4_def cleanup_log split: sum.splits)
      have "\<forall>buf. r = Inr buf \<longrightarrow>
         (\<exists>st. rest = [WriteFile (path_join tmp ''list.txt'') (list_content (map (seg_path tmp) [0..<k])),
                       Spawn ''ffmpeg'' (concat_args (path_join tmp ''list.txt'') (path_join tmp ''output.mp4'')) tmp (Some 0) st])"
      proof (intro allI impI)
        fix buf assume "r = Inr buf"
        with fin cs have "concat_segments e tmp segs w2 = (Inr buf, w3)" by simp
        from concat_segments_events [OF this] rest kk show "\<exists>st. rest = [WriteFile (path_join tmp ''list.txt'') (list_content (map (seg_path tmp) [0..<k])),
                       Spawn ''ffmpeg'' (concat_args (path_join tmp ''list.txt'') (path_join tmp ''output.mp4'')) tmp (Some 0) st]"
          by auto
      qed
      then show ?thesis using k(1,2,3) kk(1) l1 rest fin True
        by (intro exI [of _ k] exI [of _ evs] exI [of _ rest]) auto
    qed
  qed
qed

lemma scene_events:
  assumes "renderMp4 e inp w = (Inr buf, w')"
    and "parse_manifest (manifestJson inp) = Inr m"
    and "files inp = Some fl"
    and "stage e fl = (imgs, auds)"
    and "mkdtempSync e = Some tmp"
  shows "\<exists>evs st. log w' = log w @ evs @
            [WriteFile (path_join tmp ''list.txt'') (list_content (map (seg_path tmp) [0..<length imgs])),
             Spawn ''ffmpeg'' (concat_args (path_join tmp ''list.txt'') (path_join tmp ''output.mp4'')) tmp (Some 0) st] \<and>
          length evs = length imgs \<and>
          (\<forall>i<length imgs. is_spawn_of tmp
              (scene_args (duration_sec (scenes m ! i)) (path (imgs ! i)) (audio_at auds i) (seg_path tmp i))
              (evs ! i))"
proof -
  let ?lf = "path_join tmp ''list.txt''" and ?out = "path_join tmp ''output.mp4''"
  let ?P = "\<lambda>ev j. is_spawn_of tmp (scene_call tmp (scenes m) imgs auds j) ev"
  from renderMp4_events [OF assms] obtain k evs rest where
    a: "log w' = log w @ evs @ rest" and b: "list_all2 ?P evs [0..<k]"
    and c: "\<forall>b. (Inr buf :: error + string) = Inr b \<longrightarrow> length imgs = length (scenes m) \<and> k = length (scenes m) \<and>
         (\<exists>st. rest = [WriteFile ?lf (list_content (map (seg_path tmp) [0..<k])),
                       Spawn ''ffmpeg'' (concat_args ?lf ?out) tmp (Some 0) st])"
    by (elim exE conjE)
  from c obtain st where d: "length imgs = length (scenes m)" "k = length (scenes m)"
    "rest = [WriteFile ?lf (list_content (map (seg_path tmp) [0..<k])),
             Spawn ''ffmpeg'' (concat_args ?lf ?out) tmp (Some 0) st]"
    by auto
  from b have len: "length evs = k" by (auto dest: list_all2_lengthD)
  from b have "\<forall>i<k. ?P (evs ! i) i"
    by (auto simp: list_all2_conv_all_nth)
  then have "\<forall>i<length imgs. is_spawn_of tmp
              (scene_args (duration_sec (scenes m ! i)) (path (imgs ! i)) (audio_at auds i) (seg_path tmp i))
              (evs ! i)"
    using d by (simp add: scene_call_def)
  then show ?thesis using a d len by auto
qed

subsection \<open>The arguments of a scene's run\<close>

lemma scene_args_audio:
  "a \<noteq> [] \<Longrightarrow> scene_args dur img (Some a) seg =
     [Lit ''-y'', Lit ''-loop'', Lit ''1'', Lit ''-i'', Lit img, Lit ''-i'', Lit a,
      Lit ''-t'', Num dur,
      Lit ''-vf'', Lit ''scale=1280:720:force_original_aspect_ratio=decrease,pad=1280:720:(ow-iw)/2:(oh-ih)/2,format=yuv420p'',
      Lit ''-shortest'', Lit ''-r'', Lit ''30'', Lit ''-c:v'', Lit ''libx264'',
      Lit ''-c:a'', Lit ''aac'', Lit seg]"
  by (simp add: scene_args_def vf_def)

lemma scene_args_silent:
  "\<not> truthy a \<Longrightarrow> scene_args dur img a seg =
     [Lit ''-y'', Lit ''-loop'', Lit ''1'', Lit ''-i'', Lit img,
      Lit ''-t'', Num dur,
      Lit ''-vf'', Lit ''scale=1280:720:force_original_aspect_ratio=decrease,pad=1280:720:(ow-iw)/2:(oh-ih)/2,format=yuv420p'',
      Lit ''-r'', Lit ''30'', Lit ''-c:v'', Lit ''libx264'', Lit seg]"
  by (simp add: scene_args_def vf_def)

lemma seg_path_explicit:
  "seg_path tmp i =
     tmp @ ''/seg_'' @ replicate (3 - length (String_nat i)) (CHR ''0'') @ String_nat i @ ''.mp4''"
  by (simp add: seg_path_def path_join_def padStart_def)

lemma is_spawn_ofD: "is_spawn_of cwd args ev \<Longrightarrow> \<exists>c s. ev = Spawn ''ffmpeg'' args cwd c s"
  by (cases ev) auto

lemma reached_scene_event:
  assumes "renderMp4 e inp w = (r, w')"
    and "parse_manifest (manifestJson inp) = Inr m"
    and "files inp = Some fl"
    and "stage e fl = (imgs, auds)"
    and "mkdtempSync e = Some tmp"
    and "log w' = log w @ evs"
    and "i < length (scenes m)"
    and "i < length evs"
  shows "\<exists>c s. evs ! i = Spawn ''ffmpeg'' (scene_call tmp (scenes m) imgs auds i) tmp c s"
proof -
  let ?P = "\<lambda>ev j. is_spawn_of tmp (scene_call tmp (scenes m) imgs auds j) ev"
  from renderMp4_events [OF assms(1-5)] obtain k evs0 rest where
    a: "log w' = log w @ evs0 @ rest" and k: "k \<le> length (scenes m)"
    and b: "list_all2 ?P evs0 [0..<k]" and c: "rest = [] \<or> k = length (scenes m)"
    by (elim exE conjE)
  from a assms(6) have evs: "evs = evs0 @ rest" by simp
  from b have len: "length evs0 = k" by (auto dest: list_all2_lengthD)
  have "i < k" using c assms(7,8) evs len by auto
  with b have "?P (evs0 ! i) i" by (auto simp: list_all2_conv_all_nth)
  moreover have "evs ! i = evs0 ! i" using evs len \<open>i < k\<close> by (simp add: nth_append)
  ultimately have "?P (evs ! i) i" by simp
  then show ?thesis by (rule is_spawn_ofD)
qed

lemma String_nat_0: "String_nat 0 = ''0''"
  by code_simp

lemma String_nat_1: "String_nat (Suc 0) = ''1''"
  by code_simp

text \<open>
  Claim C2, as the code has it. Take a request with a valid manifest and a scene \<open>i\<close>
  whose encoder run happened. The scene's duration is a finite number \<open>d\<close> of [1, 60]
  and the run has the arguments of lines 58 to 79: image \<open>i\<close> read with \<^verbatim>\<open>-loop 1\<close>,
  \<^verbatim>\<open>-t\<close> with the text of \<open>d\<close>, the filter, 30 frames per second, libx264, and the
  path of segment \<open>i\<close> last. When \<^verbatim>\<open>audios[i]\<close> exists after staging with a path that
  is not empty, the audio file is the second input and \<^verbatim>\<open>-shortest\<close> and the aac codec
  are added; in every other case none of the three is there. The choice is the test of
  line 58 on the audio file; the manifest's \<^verbatim>\<open>hasAudio\<close> takes no part in it. How long
  the segment is that the encoder writes from these arguments is the work of the
  encoder, an external program: the routine neither computes nor checks it.
\<close>

theorem scene_run_arguments:
  assumes "renderMp4 e inp w = (r, w')"
    and "parse_manifest (manifestJson inp) = Inr m"
    and "files inp = Some fl"
    and "stage e fl = (imgs, auds)"
    and "mkdtempSync e = Some tmp"
    and "log w' = log w @ evs"
    and "i < length (scenes m)"
    and "i < length evs"
    and "seg = tmp @ ''/seg_'' @ replicate (3 - length (String_nat i)) (CHR ''0'') @ String_nat i @ ''.mp4''"
  shows "\<exists>d. duration_sec (scenes m ! i) = Fin d \<and> 1 \<le> d \<and> d \<le> 60 \<and>
     (i < length auds \<and> path (auds ! i) \<noteq> [] \<longrightarrow>
        (\<exists>c s. evs ! i = Spawn ''ffmpeg''
           [Lit ''-y'', Lit ''-loop'', Lit ''1'', Lit ''-i'', Lit (path (imgs ! i)),
            Lit ''-i'', Lit (path (auds ! i)),
            Lit ''-t'', Num (Fin d),
            Lit ''-vf'', Lit ''scale=1280:720:force_original_aspect_ratio=decrease,pad=1280:720:(ow-iw)/2:(oh-ih)/2,format=yuv420p'',
            Lit ''-shortest'', Lit ''-r'', Lit ''30'', Lit ''-c:v'', Lit ''libx264'',
            Lit ''-c:a'', Lit ''aac'', Lit seg] tmp c s)) \<and>
     (\<not> (i < length auds \<and> path (auds ! i) \<noteq> []) \<longrightarrow>
        (\<exists>c s. evs ! i = Spawn ''ffmpeg''
           [Lit ''-y'', Lit ''-loop'', Lit ''1'', Lit ''-i'', Lit (path (imgs ! i)),
            Lit ''-t'', Num (Fin d),
            Lit ''-vf'', Lit ''scale=1280:720:force_original_aspect_ratio=decrease,pad=1280:720:(ow-iw)/2:(oh-ih)/2,format=yuv420p'',
            Lit ''-r'', Lit ''30'', Lit ''-c:v'', Lit ''libx264'', Lit seg] tmp c s))"
proof -
  from valid_durations [OF assms(2,7)] obtain d where
    d: "duration_sec (scenes m ! i) = Fin d" "1 \<le> d" "d \<le> 60" by blast
  from reached_scene_event [OF assms(1-8)] obtain c s where
    ev: "evs ! i = Spawn ''ffmpeg'' (scene_call tmp (scenes m) imgs auds i) tmp c s" by blast
  have sg: "seg_path tmp i = seg" using assms(9) by (simp add: seg_path_explicit)
  show ?thesis
  proof (cases "i < length auds \<and> path (auds ! i) \<noteq> []")
    case True
    then have "audio_at auds i = Some (path (auds ! i))" by (simp add: audio_at_def)
    with True have "scene_call tmp (scenes m) imgs auds i =
           [Lit ''-y'', Lit ''-loop'', Lit ''1'', Lit ''-i'', Lit (path (imgs ! i)),
            Lit ''-i'', Lit (path (auds ! i)),
            Lit ''-t'', Num (Fin d),
            Lit ''-vf'', Lit ''scale=1280:720:force_original_aspect_ratio=decrease,pad=1280:720:(ow-iw)/2:(oh-ih)/2,format=yuv420p'',
            Lit ''-shortest'', Lit ''-r'', Lit ''30'', Lit ''-c:v'', Lit ''libx264'',
            Lit ''-c:a'', Lit ''aac'', Lit seg]"
      unfolding scene_call_def d(1) sg by (simp add: scene_args_audio)
    with ev d True show ?thesis by auto
  next
    case False
    then have "\<not> truthy (audio_at auds i)" by (auto simp: audio_at_def)
    then have "scene_call tmp (scenes m) imgs auds i =
           [Lit ''-y'', Lit ''-loop'', Lit ''1'', Lit ''-i'', Lit (path (imgs ! i)),
            Lit ''-t'', Num (Fin d),
            Lit ''-vf'', Lit ''scale=1280:720:force_original_aspect_ratio=decrease,pad=1280:720:(ow-iw)/2:(oh-ih)/2,format=yuv420p'',
            Lit ''-r'', Lit ''30'', Lit ''-c:v'', Lit ''libx264'', Lit seg]"
      unfolding scene_call_def d(1) sg by (rule scene_args_silent)
    with ev d False show ?thesis by auto
  qed
qed

theorem scene_run_arguments_witness:
  "0 < length (scenes sample_parsed) \<and>
   0 < length (log (snd (renderMp4 sample_env two_images sample_world))) \<and>
   0 < length [aud_a] \<and> path ([aud_a] ! 0) \<noteq> [] \<and>
   hasAudio (scenes sample_parsed ! 0) = False \<and>
   duration_sec (scenes sample_parsed ! 0) = Fin 5 \<and>
   (\<exists>c s. log (snd (renderMp4 sample_env two_images sample_world)) ! 0 =
      Spawn ''ffmpeg''
        [Lit ''-y'', Lit ''-loop'', Lit ''1'', Lit ''-i'', Lit ''/u/1'',
         Lit ''-i'', Lit ''/u/3'',
         Lit ''-t'', Num (Fin 5),
         Lit ''-vf'', Lit ''scale=1280:720:force_original_aspect_ratio=decrease,pad=1280:720:(ow-iw)/2:(oh-ih)/2,format=yuv420p'',
         Lit ''-shortest'', Lit ''-r'', Lit ''30'', Lit ''-c:v'', Lit ''libx264'',
         Lit ''-c:a'', Lit ''aac'', Lit ''/t/cs/seg_000.mp4'']
        ''/t/cs'' c s)"
proof -
  let ?R = "renderMp4 sample_env two_images sample_world"
  have r: "?R = (fst ?R, snd ?R)" by simp
  have l: "log (snd ?R) = log sample_world @ log (snd ?R)" by (simp add: sample_log_start)
  have i: "0 < length (scenes sample_parsed)" by (simp add: sample_parsed_def)
  have j: "0 < length (log (snd ?R))" by (simp add: sample_log)
  have d: "duration_sec (scenes sample_parsed ! 0) = Fin 5" "hasAudio (scenes sample_parsed ! 0) = False"
    by (simp_all add: sample_parsed_def)
  have a: "0 < length [aud_a]" "path ([aud_a] ! 0) \<noteq> []" by (simp_all add: aud_a_def)
  have sg: "''/t/cs/seg_000.mp4'' =
      ''/t/cs'' @ ''/seg_'' @ replicate (3 - length (String_nat 0)) (CHR ''0'') @ String_nat 0 @ ''.mp4''"
    by (simp add: String_nat_0 numeral_2_eq_2)
  have p: "path ([img_a, img_b] ! 0) = ''/u/1''" "path ([aud_a] ! 0) = ''/u/3''"
    by (simp_all add: img_a_def aud_a_def)
  from scene_run_arguments [OF r sample_parse sample_files sample_stage sample_tmp l i j sg,
         unfolded p]
       d a i j
  show ?thesis by auto
qed

text \<open>
  Against claim C2 as stated (the audio case is the scenes with \<^verbatim>\<open>hasAudio=true\<close>, the
  other scenes last exactly \<^verbatim>\<open>duration_sec\<close>): in the sample request the manifest says
  \<^verbatim>\<open>hasAudio\<close> false for scene 0 and true for scene 1, and one audio file is uploaded.
  Scene 0 is encoded with the audio file as second input and with \<^verbatim>\<open>-shortest\<close>, so
  the encoder is told to end its segment with the audio; scene 1 is encoded with the
  image alone and no \<^verbatim>\<open>-shortest\<close>.
\<close>

theorem hasAudio_flag_does_not_select_audio:
  "parse_manifest (manifestJson two_images) = Inr sample_parsed \<and>
   hasAudio (scenes sample_parsed ! 0) = False \<and>
   hasAudio (scenes sample_parsed ! 1) = True \<and>
   log (snd (renderMp4 sample_env two_images sample_world)) ! 0 =
     Spawn ''ffmpeg''
       [Lit ''-y'', Lit ''-loop'', Lit ''1'', Lit ''-i'', Lit ''/u/1'', Lit ''-i'', Lit ''/u/3'',
        Lit ''-t'', Num (Fin 5),
        Lit ''-vf'', Lit ''scale=1280:720:force_original_aspect_ratio=decrease,pad=1280:720:(ow-iw)/2:(oh-ih)/2,format=yuv420p'',
        Lit ''-shortest'', Lit ''-r'', Lit ''30'', Lit ''-c:v'', Lit ''libx264'',
        Lit ''-c:a'', Lit ''aac'', Lit ''/t/cs/seg_000.mp4''] ''/t/cs'' (Some 0) [] \<and>
   log (snd (renderMp4 sample_env two_images sample_world)) ! 1 =
     Spawn ''ffmpeg''
       [Lit ''-y'', Lit ''-loop'', Lit ''1'', Lit ''-i'', Lit ''/u/2'',
        Lit ''-t'', Num (Fin 8),
        Lit ''-vf'', Lit ''scale=1280:720:force_original_aspect_ratio=decrease,pad=1280:720:(ow-iw)/2:(oh-ih)/2,format=yuv420p'',
        Lit ''-r'', Lit ''30'', Lit ''-c:v'', Lit ''libx264'',
        Lit ''/t/cs/seg_001.mp4''] ''/t/cs'' (Some 0) []"
proof -
  have a: "hasAudio (scenes sample_parsed ! 0) = False" "hasAudio (scenes sample_parsed ! 1) = True"
    by (simp_all add: sample_parsed_def)
  have b: "log (snd (renderMp4 sample_env two_images sample_world)) ! 0 =
     Spawn ''ffmpeg''
       [Lit ''-y'', Lit ''-loop'', Lit ''1'', Lit ''-i'', Lit ''/u/1'', Lit ''-i'', Lit ''/u/3'',
        Lit ''-t'', Num (Fin 5),
        Lit ''-vf'', Lit ''scale=1280:720:force_original_aspect_ratio=decrease,pad=1280:720:(ow-iw)/2:(oh-ih)/2,format=yuv420p'',
        Lit ''-shortest'', Lit ''-r'', Lit ''30'', Lit ''-c:v'', Lit ''libx264'',
        Lit ''-c:a'', Lit ''aac'', Lit ''/t/cs/seg_000.mp4''] ''/t/cs'' (Some 0) []"
    by code_simp
  have c: "log (snd (renderMp4 sample_env two_images sample_world)) ! 1 =
     Spawn ''ffmpeg''
       [Lit ''-y'', Lit ''-loop'', Lit ''1'', Lit ''-i'', Lit ''/u/2'',
        Lit ''-t'', Num (Fin 8),
        Lit ''-vf'', Lit ''scale=1280:720:force_original_aspect_ratio=decrease,pad=1280:720:(ow-iw)/2:(oh-ih)/2,format=yuv420p'',
        Lit ''-r'', Lit ''30'', Lit ''-c:v'', Lit ''libx264'',
        Lit ''/t/cs/seg_001.mp4''] ''/t/cs'' (Some 0) []"
    by code_simp
  from sample_parse a b c show ?thesis by simp
qed

subsection \<open>The manifest's \<^verbatim>\<open>hasAudio\<close> is not read\<close>




subsection \<open>A render that succeeds\<close>




lemma list_txt_not_segment: "path_join tmp ''list.txt'' \<noteq> seg_path tmp k"
  by (simp add: seg_path_def path_join_def)


lemma out_path_scene_args: "out_path (scene_args d p a s) = Some s"
  by (simp add: out_path_def scene_args_def)

lemma out_path_concat_args: "out_path (concat_args l out) = Some out"
  by (simp add: out_path_def concat_args_def)

lemma run_fs:
  "run e cmd args cwd w = (r, w') \<Longrightarrow> out_path args \<noteq> Some p \<Longrightarrow> fs w' p = fs w p"
  by (auto simp: run_def Let_def split: if_splits option.splits)







subsection \<open>Scene order from staging to the output\<close>

lemma of_char_digit: "d < 10 \<Longrightarrow> (of_char (digit d) :: nat) - 48 = d"
  by (simp add: digit_def)

lemma decimal_String_nat:
  "foldl (\<lambda>a c. 10 * a + (of_char c - 48)) (0::nat) (String_nat n) = n"
proof (induction n rule: String_nat.induct)
  case (1 n)
  show ?case
  proof (cases "n < 10")
    case True
    then show ?thesis
      by (simp add: String_nat.simps [of n] of_char_digit)
  next
    case False
    with 1 have "foldl (\<lambda>a c. 10 * a + (of_char c - 48)) (0::nat) (String_nat (n div 10)) = n div 10"
      by simp
    with False show ?thesis
      by (simp add: String_nat.simps [of n] of_char_digit)
  qed
qed

lemma decimal_zeros:
  "foldl (\<lambda>a c. 10 * a + (of_char c - 48)) (0::nat) (replicate k (CHR ''0'')) = 0"
  by (induction k) simp_all

lemma seg_path_inject: "seg_path tmp i = seg_path tmp j \<Longrightarrow> i = j"
proof -
  assume "seg_path tmp i = seg_path tmp j"
  then have "(padStart 3 (CHR ''0'') (String_nat i)) @ ''.mp4'' = (padStart 3 (CHR ''0'') (String_nat j)) @ ''.mp4''"
    by (simp add: seg_path_def path_join_def)
  then have "padStart 3 (CHR ''0'') (String_nat i) = padStart 3 (CHR ''0'') (String_nat j)"
    by (simp only: append_same_eq)
  then have "foldl (\<lambda>a c. 10 * a + (of_char c - 48)) (0::nat) (padStart 3 (CHR ''0'') (String_nat i)) =
             foldl (\<lambda>a c. 10 * a + (of_char c - 48)) (0::nat) (padStart 3 (CHR ''0'') (String_nat j))"
    by simp
  then show "i = j" by (simp add: padStart_def decimal_zeros decimal_String_nat)
qed

lemma distinct_segments: "distinct (map (seg_path tmp) [i..<n])"
  by (simp add: distinct_map inj_on_def) (blast dest: seg_path_inject)

lemma join_nth:
  "join sep ys =
     concat (map (\<lambda>k. ys ! k @ (if Suc k < length ys then sep else [])) [0..<length ys])"
proof (induction sep ys rule: join.induct)
  case (1 sep)
  then show ?case by simp
next
  case (2 sep x)
  then show ?case by simp
next
  case (3 sep x y ys)
  have "map (\<lambda>k. (x # y # ys) ! k @ (if Suc k < length (x # y # ys) then sep else []))
          [0..<Suc (length (y # ys))] =
        (x @ sep) # map (\<lambda>k. (y # ys) ! k @ (if Suc k < length (y # ys) then sep else []))
          [0..<length (y # ys)]"
    by (simp add: map_upt_Suc del: upt_Suc)
  with 3 show ?case by (simp del: upt_Suc)
qed

lemma list_content_explicit:
  "list_content segs =
     concat (map (\<lambda>k. ''file '' @ [CHR 0x27] @
                       concat (map (\<lambda>c. if c = CHR 0x27 then [CHR 0x27, CHR 0x5C, CHR 0x27, CHR 0x27] else [c])
                                (segs ! k)) @
                       [CHR 0x27] @ (if Suc k < length segs then [CHR 0x0A] else []))
               [0..<length segs])"
proof -
  have line: "list_line s = ''file '' @ [CHR 0x27] @
      concat (map (\<lambda>c. if c = CHR 0x27 then [CHR 0x27, CHR 0x5C, CHR 0x27, CHR 0x27] else [c]) s) @
      [CHR 0x27]" for s
    unfolding list_line_def escape_quotes_def quote_def by simp
  have "list_content segs =
      concat (map (\<lambda>k. map list_line segs ! k @
                         (if Suc k < length (map list_line segs) then [CHR 0x0A] else []))
                [0..<length (map list_line segs)])"
    unfolding list_content_def by (rule join_nth)
  also have "\<dots> = concat (map (\<lambda>k. list_line (segs ! k) @
                         (if Suc k < length segs then [CHR 0x0A] else []))
                [0..<length segs])"
    by (rule arg_cong [where f = concat]) (simp del: append.simps)
  finally show ?thesis unfolding line by (simp del: upt_Suc)
qed

lemma run_output:
  assumes "run e cmd args cwd w = (Inr u, w')"
    and "\<forall>args f. exit_code (ffmpeg e args f) = Some 0 \<longrightarrow> written (ffmpeg e args f) \<noteq> None"
    and "out_path args = Some p"
  shows "\<exists>d. written (ffmpeg e args (fs w)) = Some d \<and> fs w' p = Some (File d)"
proof -
  from assms(1) have "exit_code (ffmpeg e args (fs w)) = Some 0"
    by (auto simp: run_def Let_def split: if_splits)
  with assms(2) obtain d where d: "written (ffmpeg e args (fs w)) = Some d" by blast
  with assms(1,3) have "fs w' p = Some (File d)"
    by (auto simp: run_def Let_def split: if_splits)
  with d show ?thesis by blast
qed

lemma encode_scenes_fs_from:
  assumes "encode_scenes e tmp scs imgs auds i segs w = (r, w')" and "\<forall>k\<ge>i. p \<noteq> seg_path tmp k"
  shows "fs w' p = fs w p"
  using assms
proof (induction e tmp scs imgs auds i segs w rule: encode_scenes.induct)
  case (1 e tmp scs imgs auds i segs w)
  show ?case
  proof (cases "i < length scs \<and> i < length imgs")
    case False
    with "1.prems" show ?thesis
      by (auto simp: encode_scenes.simps [of e tmp scs imgs auds i] split: if_splits)
  next
    case True
    obtain r1 w1 where rn: "run e ''ffmpeg'' (scene_call tmp scs imgs auds i) tmp w = (r1, w1)"
      by fastforce
    have "out_path (scene_call tmp scs imgs auds i) \<noteq> Some p"
      using "1.prems"(2) by (auto simp: scene_call_def out_path_scene_args)
    with rn have f1: "fs w1 p = fs w p" by (rule run_fs)
    show ?thesis
    proof (cases r1)
      case (Inl err)
      with True rn "1.prems" have "w' = w1"
        by (auto simp: encode_scenes.simps [of e tmp scs imgs auds i] scene_call_def)
      with f1 show ?thesis by simp
    next
      case (Inr u)
      with True rn "1.prems" have rec: "encode_scenes e tmp scs imgs auds (Suc i) (segs @ [seg_path tmp i]) w1 = (r, w')"
        by (auto simp: encode_scenes.simps [of e tmp scs imgs auds i] scene_call_def)
      have later: "\<forall>k\<ge>Suc i. p \<noteq> seg_path tmp k" using "1.prems"(2) by simp
      have "fs w' p = fs w1 p"
        using "1.IH" [OF _ _ _ _ rec later] True rn Inr by (auto simp: scene_call_def)
      with f1 show ?thesis by simp
    qed
  qed
qed

lemma encode_scenes_segments:
  assumes "encode_scenes e tmp scs imgs auds i segs w = (Inr segs', w')"
    and "\<forall>args f. exit_code (ffmpeg e args f) = Some 0 \<longrightarrow> written (ffmpeg e args f) \<noteq> None"
  shows "\<exists>bs. length bs = length scs - i \<and>
           (\<forall>k<length scs - i. fs w' (seg_path tmp (i + k)) = Some (File (bs ! k)) \<and>
              (\<exists>f. written (ffmpeg e (scene_call tmp scs imgs auds (i + k)) f) = Some (bs ! k)))"
  using assms
proof (induction e tmp scs imgs auds i segs w rule: encode_scenes.induct)
  case (1 e tmp scs imgs auds i segs w)
  show ?case
  proof (cases "i < length scs")
    case False
    then show ?thesis by simp
  next
    case True
    with "1.prems"(1) have ii: "i < length imgs"
      by (auto simp: encode_scenes.simps [of e tmp scs imgs auds i] split: if_splits)
    obtain r1 w1 where rn: "run e ''ffmpeg'' (scene_call tmp scs imgs auds i) tmp w = (r1, w1)"
      by fastforce
    with True ii "1.prems"(1) obtain u where r1: "r1 = Inr u"
      by (cases r1) (auto simp: encode_scenes.simps [of e tmp scs imgs auds i] scene_call_def)
    with True ii rn "1.prems"(1)
    have rec: "encode_scenes e tmp scs imgs auds (Suc i) (segs @ [seg_path tmp i]) w1 = (Inr segs', w')"
      by (auto simp: encode_scenes.simps [of e tmp scs imgs auds i] scene_call_def)
    have op: "out_path (scene_call tmp scs imgs auds i) = Some (seg_path tmp i)"
      by (simp add: scene_call_def out_path_scene_args)
    from run_output [OF rn [unfolded r1] "1.prems"(2) op] obtain d where
      d: "written (ffmpeg e (scene_call tmp scs imgs auds i) (fs w)) = Some d"
      and f1: "fs w1 (seg_path tmp i) = Some (File d)" by blast
    have "\<forall>k\<ge>Suc i. seg_path tmp i \<noteq> seg_path tmp k"
      by (auto dest: seg_path_inject)
    from encode_scenes_fs_from [OF rec this] f1
    have f': "fs w' (seg_path tmp i) = Some (File d)" by simp
    from "1.IH" [OF True ii _ _ rec "1.prems"(2)] rn r1
    obtain bs where bs: "length bs = length scs - Suc i"
      and each: "\<forall>k<length scs - Suc i. fs w' (seg_path tmp (Suc i + k)) = Some (File (bs ! k)) \<and>
              (\<exists>f. written (ffmpeg e (scene_call tmp scs imgs auds (Suc i + k)) f) = Some (bs ! k))"
      by (auto simp: scene_call_def)
    have "\<forall>k<length scs - i. fs w' (seg_path tmp (i + k)) = Some (File ((d # bs) ! k)) \<and>
              (\<exists>f. written (ffmpeg e (scene_call tmp scs imgs auds (i + k)) f) = Some ((d # bs) ! k))"
    proof (intro allI impI)
      fix k assume k: "k < length scs - i"
      show "fs w' (seg_path tmp (i + k)) = Some (File ((d # bs) ! k)) \<and>
              (\<exists>f. written (ffmpeg e (scene_call tmp scs imgs auds (i + k)) f) = Some ((d # bs) ! k))"
      proof (cases k)
        case 0
        with f' d show ?thesis by auto
      next
        case (Suc k')
        with k have "k' < length scs - Suc i" by simp
        with each Suc show ?thesis by simp
      qed
    qed
    moreover have "length (d # bs) = length scs - i" using bs True by simp
    ultimately show ?thesis by blast
  qed
qed

lemma renderMp4_success:
  assumes "renderMp4 e inp w = (Inr buf, w')"
    and "parse_manifest (manifestJson inp) = Inr m"
    and "files inp = Some fl"
    and "stage e fl = (imgs, auds)"
    and "mkdtempSync e = Some tmp"
  shows "\<exists>w1 w2 w3 sf. open_workspace e w = (Inr tmp, w1) \<and> length imgs = length (scenes m) \<and>
           encode_scenes e tmp (scenes m) imgs auds 0 [] w1 = (Inr sf, w2) \<and>
           concat_segments e tmp sf w2 = (Inr buf, w3)"
proof -
  obtain r1 w1 where ow: "open_workspace e w = (r1, w1)" by fastforce
  with assms obtain t where t: "r1 = Inr t"
    by (cases r1) (auto simp: renderMp4_def)
  with ow assms(5) have tt: "t = tmp" by (auto dest: open_workspace_tmp)
  have len: "length imgs = length (scenes m)"
    using assms ow t by (auto simp: renderMp4_def split: if_splits)
  obtain r2 w2 where en: "encode_scenes e tmp (scenes m) imgs auds 0 [] w1 = (r2, w2)" by fastforce
  with assms ow t tt len obtain sf where sf: "r2 = Inr sf"
    by (cases r2) (auto simp: renderMp4_def)
  obtain r3 w3 where cs: "concat_segments e tmp sf w2 = (r3, w3)" by fastforce
  with assms ow t tt len en sf have "r3 = Inr buf"
    by (cases r3) (auto simp: renderMp4_def)
  with ow t tt len en sf cs show ?thesis by auto
qed

lemma concat_segments_result:
  assumes "concat_segments e tmp sf w = (Inr buf, w')"
    and "written (ffmpeg e (concat_args (path_join tmp ''list.txt'') (path_join tmp ''output.mp4''))
           ((fs w)(path_join tmp ''list.txt'' \<mapsto> File (list_content sf)))) = Some d"
  shows "buf = d"
  using assms
  by (auto simp: concat_segments_def Let_def writeFileSync_def run_def readFileSync_def
        out_path_concat_args split: if_splits sum.splits prod.splits option.splits node.splits)

lemma scene_args_shape:
  "\<exists>a. scene_args dur img aud seg =
     [Lit ''-y'', Lit ''-loop'', Lit ''1'', Lit ''-i'', Lit img] @ a @ [Lit seg]"
proof (cases "truthy aud")
  case True
  then show ?thesis
    by (intro exI [of _ "[Lit ''-i'', Lit (the aud), Lit ''-t'', Num dur, Lit ''-vf'', Lit vf,
          Lit ''-shortest'', Lit ''-r'', Lit ''30'', Lit ''-c:v'', Lit ''libx264'',
          Lit ''-c:a'', Lit ''aac'']"]) (simp add: scene_args_def)
next
  case False
  then show ?thesis
    by (intro exI [of _ "[Lit ''-t'', Num dur, Lit ''-vf'', Lit vf,
          Lit ''-r'', Lit ''30'', Lit ''-c:v'', Lit ''libx264'']"]) (simp add: scene_args_def)
qed

lemma joining_stage: "stage joining_env two_images_upload = ([img_a, img_b], [aud_a])"
  by (simp add: stage_def or_empty_def js_sort_def by_originalname_def joining_env_def
        two_images_upload_def img_a_def img_b_def aud_a_def)

lemma joining_tmp: "mkdtempSync joining_env = Some ''/t/cs''"
  by (simp add: joining_env_def)

lemma joining_result: "fst (renderMp4 joining_env two_images sample_world) = Inr ''[/u/1][/u/2]''"
  by code_simp

lemma joining_run:
  "renderMp4 joining_env two_images sample_world =
     (Inr ''[/u/1][/u/2]'', snd (renderMp4 joining_env two_images sample_world))"
  using joining_result by (simp add: prod_eq_iff)

lemma joining_writes:
  "\<forall>args f. exit_code (ffmpeg joining_env args f) = Some 0 \<longrightarrow>
       written (ffmpeg joining_env args f) \<noteq> None"
  by (auto simp: joining_env_def Let_def split: arg.splits option.splits if_splits)

lemma sample_list_paths:
  "map listed_path (split_on (CHR 0x0A)
      (''file '' @ [CHR 0x27] @ ''/t/cs/seg_000.mp4'' @ [CHR 0x27, CHR 0x0A] @
       ''file '' @ [CHR 0x27] @ ''/t/cs/seg_001.mp4'' @ [CHR 0x27])) =
   [''/t/cs/seg_000.mp4'', ''/t/cs/seg_001.mp4'']"
  by code_simp

lemma joining_joins:
  "\<forall>f bs. f ''/t/cs/list.txt'' =
            Some (File (''file '' @ [CHR 0x27] @ ''/t/cs/seg_000.mp4'' @ [CHR 0x27, CHR 0x0A] @
                        ''file '' @ [CHR 0x27] @ ''/t/cs/seg_001.mp4'' @ [CHR 0x27])) \<and>
          length bs = length [''/t/cs/seg_000.mp4'', ''/t/cs/seg_001.mp4''] \<and>
          (\<forall>k<length [''/t/cs/seg_000.mp4'', ''/t/cs/seg_001.mp4''].
              f ([''/t/cs/seg_000.mp4'', ''/t/cs/seg_001.mp4''] ! k) = Some (File (bs ! k))) \<longrightarrow>
          written (ffmpeg joining_env
            [Lit ''-y'', Lit ''-f'', Lit ''concat'', Lit ''-safe'', Lit ''0'',
             Lit ''-i'', Lit ''/t/cs/list.txt'', Lit ''-c'', Lit ''copy'',
             Lit ''/t/cs/output.mp4''] f) = Some (concat bs)"
proof (intro allI impI, elim conjE)
  fix f :: filesystem and bs :: "string list"
  let ?script = "''file '' @ [CHR 0x27] @ ''/t/cs/seg_000.mp4'' @ [CHR 0x27, CHR 0x0A] @
                        ''file '' @ [CHR 0x27] @ ''/t/cs/seg_001.mp4'' @ [CHR 0x27]"
  assume lf: "f ''/t/cs/list.txt'' = Some (File ?script)"
    and n: "length bs = length [''/t/cs/seg_000.mp4'', ''/t/cs/seg_001.mp4'']"
    and each: "\<forall>k<length [''/t/cs/seg_000.mp4'', ''/t/cs/seg_001.mp4''].
              f ([''/t/cs/seg_000.mp4'', ''/t/cs/seg_001.mp4''] ! k) = Some (File (bs ! k))"
  from n obtain b0 b1 where bs: "bs = [b0, b1]"
    by (cases bs; cases "tl bs") auto
  from each [rule_format, of 0] bs have f0: "f ''/t/cs/seg_000.mp4'' = Some (File b0)" by simp
  from each [rule_format, of 1] bs have f1: "f ''/t/cs/seg_001.mp4'' = Some (File b1)" by simp
  have fl: "file_bytes f ''/t/cs/list.txt'' = Some ?script"
    using lf by (simp add: file_bytes_def)
  have parts: "map (file_bytes f) (map listed_path (split_on (CHR 0x0A) ?script)) = [Some b0, Some b1]"
    unfolding sample_list_paths using f0 f1 by (simp add: file_bytes_def)
  show "written (ffmpeg joining_env
            [Lit ''-y'', Lit ''-f'', Lit ''concat'', Lit ''-safe'', Lit ''0'',
             Lit ''-i'', Lit ''/t/cs/list.txt'', Lit ''-c'', Lit ''copy'',
             Lit ''/t/cs/output.mp4''] f) = Some (concat bs)"
    using lf f0 f1 bs by (simp add: joining_env_def Let_def file_bytes_def listed_path_def)
qed

text \<open>
  Claim C8. Take a render that returns the video. The segment paths \<^verbatim>\<open>seg_000.mp4\<close>,
  \<^verbatim>\<open>seg_001.mp4\<close>, ... in the temporary directory, one per staged image, differ from
  each other. The log continues with exactly one encoder run per scene, in index order:
  run \<open>i\<close> reads staged image \<open>i\<close> as its first input and writes segment path \<open>i\<close>, its
  last argument. Then the list file is written: line \<open>k\<close> is \<^verbatim>\<open>file '...'\<close> with segment
  path \<open>k\<close> between the quotes (a quote within the path escaped), the lines in index
  order with a newline between two of them. Then the concat run is started on that list
  file, to write \<^verbatim>\<open>output.mp4\<close>. No step after staging changes the order. All this holds
  whatever the encoder does. That the concat run joins the listed files in the order of
  the lines is the encoder's part, an external program: when every encoder run that
  closes with code 0 has left its output file, and the concat run on a list file of this
  content leaves the bytes of the listed files one after the other in the order of the
  lines, the video returned is what the run of scene 0 wrote, followed by what the run
  of scene 1 wrote, and so on to the last scene.
\<close>

theorem scene_order_end_to_end:
  assumes "renderMp4 e inp w = (Inr buf, w')"
    and "parse_manifest (manifestJson inp) = Inr m"
    and "files inp = Some fl"
    and "stage e fl = (imgs, auds)"
    and "mkdtempSync e = Some tmp"
    and "segs = map (\<lambda>i. tmp @ ''/seg_'' @ replicate (3 - length (String_nat i)) (CHR ''0'') @
                          String_nat i @ ''.mp4'') [0..<length imgs]"
    and "script = concat (map (\<lambda>k. ''file '' @ [CHR 0x27] @
                      concat (map (\<lambda>c. if c = CHR 0x27 then [CHR 0x27, CHR 0x5C, CHR 0x27, CHR 0x27] else [c])
                                (segs ! k)) @
                      [CHR 0x27] @ (if Suc k < length segs then [CHR 0x0A] else []))
                    [0..<length segs])"
    and "cargs = [Lit ''-y'', Lit ''-f'', Lit ''concat'', Lit ''-safe'', Lit ''0'',
                  Lit ''-i'', Lit (tmp @ ''/list.txt''), Lit ''-c'', Lit ''copy'',
                  Lit (tmp @ ''/output.mp4'')]"
  shows "distinct segs \<and>
     (\<exists>evs st. log w' = log w @ evs @
          [WriteFile (tmp @ ''/list.txt'') script, Spawn ''ffmpeg'' cargs tmp (Some 0) st] \<and>
        length evs = length imgs \<and>
        (\<forall>i<length imgs. \<exists>a c s. evs ! i = Spawn ''ffmpeg''
             ([Lit ''-y'', Lit ''-loop'', Lit ''1'', Lit ''-i'', Lit (path (imgs ! i))] @ a @
              [Lit (segs ! i)]) tmp c s) \<and>
        ((\<forall>args f. exit_code (ffmpeg e args f) = Some 0 \<longrightarrow> written (ffmpeg e args f) \<noteq> None) \<and>
         (\<forall>f bs. f (tmp @ ''/list.txt'') = Some (File script) \<and> length bs = length segs \<and>
                  (\<forall>k<length segs. f (segs ! k) = Some (File (bs ! k))) \<longrightarrow>
                  written (ffmpeg e cargs f) = Some (concat bs))
         \<longrightarrow> (\<exists>bs. length bs = length imgs \<and> buf = concat bs \<and>
                (\<forall>i<length imgs. \<exists>args c s f. evs ! i = Spawn ''ffmpeg'' args tmp c s \<and>
                     written (ffmpeg e args f) = Some (bs ! i)))))"
proof -
  let ?lf = "path_join tmp ''list.txt''" and ?out = "path_join tmp ''output.mp4''"
  have lf: "?lf = tmp @ ''/list.txt''" and out: "?out = tmp @ ''/output.mp4''"
    by (simp_all add: path_join_def)
  have segs: "segs = map (seg_path tmp) [0..<length imgs]"
    using assms(6) by (simp add: seg_path_explicit)
  have nseg: "length segs = length imgs" and seg_nth: "\<And>k. k < length imgs \<Longrightarrow> segs ! k = seg_path tmp k"
    using segs by simp_all
  have script: "script = list_content segs"
    using assms(7) by (simp only: list_content_explicit)
  have cargs: "cargs = concat_args ?lf ?out"
    using assms(8) by (simp add: concat_args_def path_join_def)
  have dist: "distinct segs" unfolding segs by (rule distinct_segments)
  from renderMp4_success [OF assms(1-5)] obtain w1 w2 w3 sf where
    len: "length imgs = length (scenes m)"
    and en: "encode_scenes e tmp (scenes m) imgs auds 0 [] w1 = (Inr sf, w2)"
    and cs: "concat_segments e tmp sf w2 = (Inr buf, w3)" by blast
  from encode_scenes_events [OF en] have "sf = map (seg_path tmp) [0..<length (scenes m)]" by auto
  with segs len have sf: "sf = segs" by simp
  from scene_events [OF assms(1-5)] obtain evs st where
    l: "log w' = log w @ evs @
            [WriteFile ?lf (list_content (map (seg_path tmp) [0..<length imgs])),
             Spawn ''ffmpeg'' (concat_args ?lf ?out) tmp (Some 0) st]"
    and n: "length evs = length imgs"
    and s: "\<forall>i<length imgs. is_spawn_of tmp
              (scene_args (duration_sec (scenes m ! i)) (path (imgs ! i)) (audio_at auds i) (seg_path tmp i))
              (evs ! i)"
    by (elim exE conjE)
  have l': "log w' = log w @ evs @
          [WriteFile (tmp @ ''/list.txt'') script, Spawn ''ffmpeg'' cargs tmp (Some 0) st]"
    unfolding script cargs lf [symmetric] using l unfolding segs [symmetric] .
  have ev: "\<exists>c s. evs ! i = Spawn ''ffmpeg'' (scene_call tmp (scenes m) imgs auds i) tmp c s"
    if "i < length imgs" for i
    using s that by (auto simp: scene_call_def dest: is_spawn_ofD)
  have shape: "\<forall>i<length imgs. \<exists>a c s. evs ! i = Spawn ''ffmpeg''
             ([Lit ''-y'', Lit ''-loop'', Lit ''1'', Lit ''-i'', Lit (path (imgs ! i))] @ a @
              [Lit (segs ! i)]) tmp c s"
  proof (intro allI impI)
    fix i assume i: "i < length imgs"
    from ev [OF i] obtain c s where
      "evs ! i = Spawn ''ffmpeg'' (scene_call tmp (scenes m) imgs auds i) tmp c s" by blast
    moreover obtain a where "scene_call tmp (scenes m) imgs auds i =
        [Lit ''-y'', Lit ''-loop'', Lit ''1'', Lit ''-i'', Lit (path (imgs ! i))] @ a @ [Lit (seg_path tmp i)]"
      unfolding scene_call_def using scene_args_shape by blast
    ultimately show "\<exists>a c s. evs ! i = Spawn ''ffmpeg''
             ([Lit ''-y'', Lit ''-loop'', Lit ''1'', Lit ''-i'', Lit (path (imgs ! i))] @ a @
              [Lit (segs ! i)]) tmp c s"
      using seg_nth [OF i] by (intro exI [of _ a] exI [of _ c] exI [of _ s]) (simp only:)
  qed
  have joined: "\<exists>bs. length bs = length imgs \<and> buf = concat bs \<and>
                (\<forall>i<length imgs. \<exists>args c s f. evs ! i = Spawn ''ffmpeg'' args tmp c s \<and>
                     written (ffmpeg e args f) = Some (bs ! i))"
    if wr: "\<forall>args f. exit_code (ffmpeg e args f) = Some 0 \<longrightarrow> written (ffmpeg e args f) \<noteq> None"
    and jn: "\<forall>f bs. f (tmp @ ''/list.txt'') = Some (File script) \<and> length bs = length segs \<and>
                  (\<forall>k<length segs. f (segs ! k) = Some (File (bs ! k))) \<longrightarrow>
                  written (ffmpeg e cargs f) = Some (concat bs)"
  proof -
    from encode_scenes_segments [OF en wr] len obtain bs where
      nbs: "length bs = length imgs"
      and each: "\<forall>k<length imgs. fs w2 (seg_path tmp k) = Some (File (bs ! k)) \<and>
              (\<exists>f. written (ffmpeg e (scene_call tmp (scenes m) imgs auds k) f) = Some (bs ! k))"
      by auto
    let ?f = "(fs w2)(?lf \<mapsto> File (list_content sf))"
    have a: "?f (tmp @ ''/list.txt'') = Some (File script)" using lf script sf by simp
    have b: "\<forall>k<length segs. ?f (segs ! k) = Some (File (bs ! k))"
    proof (intro allI impI)
      fix k assume "k < length segs"
      then have k: "k < length imgs" using nseg by simp
      have "?f (seg_path tmp k) = fs w2 (seg_path tmp k)"
        using list_txt_not_segment [of tmp k] by simp
      with each k seg_nth [OF k] show "?f (segs ! k) = Some (File (bs ! k))" by simp
    qed
    have nb: "length bs = length segs" using nbs nseg by simp
    have "?f (tmp @ ''/list.txt'') = Some (File script) \<and> length bs = length segs \<and>
          (\<forall>k<length segs. ?f (segs ! k) = Some (File (bs ! k)))"
      by (intro conjI) (rule a, rule nb, rule b)
    from jn [rule_format, OF this] have "written (ffmpeg e cargs ?f) = Some (concat bs)" .
    then have "written (ffmpeg e (concat_args ?lf ?out) ?f) = Some (concat bs)"
      by (simp only: cargs)
    from concat_segments_result [OF cs this] have buf: "buf = concat bs" .
    have "\<forall>i<length imgs. \<exists>args c s f. evs ! i = Spawn ''ffmpeg'' args tmp c s \<and>
                     written (ffmpeg e args f) = Some (bs ! i)"
    proof (intro allI impI)
      fix i assume i: "i < length imgs"
      from ev [OF i] obtain c s where
        "evs ! i = Spawn ''ffmpeg'' (scene_call tmp (scenes m) imgs auds i) tmp c s" by blast
      moreover from each i obtain f where
        "written (ffmpeg e (scene_call tmp (scenes m) imgs auds i) f) = Some (bs ! i)" by blast
      ultimately show "\<exists>args c s f. evs ! i = Spawn ''ffmpeg'' args tmp c s \<and>
                     written (ffmpeg e args f) = Some (bs ! i)" by blast
    qed
    with nbs buf show ?thesis by (intro exI [of _ bs] conjI)
  qed
  have cond: "(\<forall>args f. exit_code (ffmpeg e args f) = Some 0 \<longrightarrow> written (ffmpeg e args f) \<noteq> None) \<and>
         (\<forall>f bs. f (tmp @ ''/list.txt'') = Some (File script) \<and> length bs = length segs \<and>
                  (\<forall>k<length segs. f (segs ! k) = Some (File (bs ! k))) \<longrightarrow>
                  written (ffmpeg e cargs f) = Some (concat bs))
         \<longrightarrow> (\<exists>bs. length bs = length imgs \<and> buf = concat bs \<and>
                (\<forall>i<length imgs. \<exists>args c s f. evs ! i = Spawn ''ffmpeg'' args tmp c s \<and>
                     written (ffmpeg e args f) = Some (bs ! i)))"
  proof (intro impI, elim conjE)
    assume "\<forall>args f. exit_code (ffmpeg e args f) = Some 0 \<longrightarrow> written (ffmpeg e args f) \<noteq> None"
      and "\<forall>f bs. f (tmp @ ''/list.txt'') = Some (File script) \<and> length bs = length segs \<and>
                  (\<forall>k<length segs. f (segs ! k) = Some (File (bs ! k))) \<longrightarrow>
                  written (ffmpeg e cargs f) = Some (concat bs)"
    then show "\<exists>bs. length bs = length imgs \<and> buf = concat bs \<and>
                (\<forall>i<length imgs. \<exists>args c s f. evs ! i = Spawn ''ffmpeg'' args tmp c s \<and>
                     written (ffmpeg e args f) = Some (bs ! i))" by (rule joined)
  qed
  show ?thesis
    by (intro conjI exI [of _ evs] exI [of _ st]) (rule dist, rule l', rule n, rule shape, rule cond)
qed

theorem scene_order_end_to_end_witness:
  "renderMp4 joining_env two_images sample_world =
     (Inr ''[/u/1][/u/2]'', snd (renderMp4 joining_env two_images sample_world)) \<and>
   stage joining_env two_images_upload = ([img_a, img_b], [aud_a]) \<and>
   distinct [''/t/cs/seg_000.mp4'', ''/t/cs/seg_001.mp4''] \<and>
   (\<exists>evs st. log (snd (renderMp4 joining_env two_images sample_world)) = log sample_world @ evs @
        [WriteFile ''/t/cs/list.txt''
           (''file '' @ [CHR 0x27] @ ''/t/cs/seg_000.mp4'' @ [CHR 0x27, CHR 0x0A] @
            ''file '' @ [CHR 0x27] @ ''/t/cs/seg_001.mp4'' @ [CHR 0x27]),
         Spawn ''ffmpeg''
           [Lit ''-y'', Lit ''-f'', Lit ''concat'', Lit ''-safe'', Lit ''0'',
            Lit ''-i'', Lit ''/t/cs/list.txt'', Lit ''-c'', Lit ''copy'',
            Lit ''/t/cs/output.mp4''] ''/t/cs'' (Some 0) st] \<and>
      length evs = length [img_a, img_b] \<and>
      (\<forall>i<length [img_a, img_b]. \<exists>a c s. evs ! i = Spawn ''ffmpeg''
           ([Lit ''-y'', Lit ''-loop'', Lit ''1'', Lit ''-i'', Lit (path ([img_a, img_b] ! i))] @ a @
            [Lit ([''/t/cs/seg_000.mp4'', ''/t/cs/seg_001.mp4''] ! i)]) ''/t/cs'' c s) \<and>
      (\<exists>bs. length bs = length [img_a, img_b] \<and> ''[/u/1][/u/2]'' = concat bs \<and>
          (\<forall>i<length [img_a, img_b]. \<exists>args c s f. evs ! i = Spawn ''ffmpeg'' args ''/t/cs'' c s \<and>
               written (ffmpeg joining_env args f) = Some (bs ! i))))"
proof -
  have segs: "[''/t/cs/seg_000.mp4'', ''/t/cs/seg_001.mp4''] =
      map (\<lambda>i. ''/t/cs'' @ ''/seg_'' @ replicate (3 - length (String_nat i)) (CHR ''0'') @
                          String_nat i @ ''.mp4'') [0..<length [img_a, img_b]]"
    by (simp add: String_nat_0 String_nat_1 numeral_2_eq_2 numeral_3_eq_3)
  have script: "''file '' @ [CHR 0x27] @ ''/t/cs/seg_000.mp4'' @ [CHR 0x27, CHR 0x0A] @
            ''file '' @ [CHR 0x27] @ ''/t/cs/seg_001.mp4'' @ [CHR 0x27] =
      concat (map (\<lambda>k. ''file '' @ [CHR 0x27] @
                      concat (map (\<lambda>c. if c = CHR 0x27 then [CHR 0x27, CHR 0x5C, CHR 0x27, CHR 0x27] else [c])
                                ([''/t/cs/seg_000.mp4'', ''/t/cs/seg_001.mp4''] ! k)) @
                      [CHR 0x27] @
                      (if Suc k < length [''/t/cs/seg_000.mp4'', ''/t/cs/seg_001.mp4'']
                       then [CHR 0x0A] else []))
                    [0..<length [''/t/cs/seg_000.mp4'', ''/t/cs/seg_001.mp4'']])"
    by code_simp
  have lf: "''/t/cs'' @ ''/list.txt'' = ''/t/cs/list.txt''" by simp
  have cargs: "[Lit ''-y'', Lit ''-f'', Lit ''concat'', Lit ''-safe'', Lit ''0'',
            Lit ''-i'', Lit ''/t/cs/list.txt'', Lit ''-c'', Lit ''copy'', Lit ''/t/cs/output.mp4''] =
      [Lit ''-y'', Lit ''-f'', Lit ''concat'', Lit ''-safe'', Lit ''0'',
       Lit ''-i'', Lit (''/t/cs'' @ ''/list.txt''), Lit ''-c'', Lit ''copy'',
       Lit (''/t/cs'' @ ''/output.mp4'')]" by simp
  from scene_order_end_to_end
         [OF joining_run sample_parse sample_files joining_stage joining_tmp segs script cargs,
          unfolded lf]
       joining_writes joining_joins joining_run joining_stage
  show ?thesis by blast
qed

subsection \<open>Staging\<close>

lemma mset_insert_by: "mset (insert_by cmp x xs) = add_mset x (mset xs)"
  by (induction xs) auto

lemma mset_js_sort: "mset (js_sort cmp xs) = mset xs"
  by (induction xs) (auto simp: js_sort_def mset_insert_by)

lemma set_insert_by: "set (insert_by cmp x xs) = insert x (set xs)"
  by (induction xs) auto

lemma sorted_insert_by:
  assumes tot: "\<forall>a b. cmp a b \<le> 0 \<or> cmp b a \<le> 0"
    and tr: "\<forall>a b c. cmp a b \<le> 0 \<and> cmp b c \<le> 0 \<longrightarrow> cmp a c \<le> 0"
  shows "sorted_wrt (\<lambda>a b. cmp a b \<le> 0) xs \<Longrightarrow> sorted_wrt (\<lambda>a b. cmp a b \<le> 0) (insert_by cmp x xs)"
proof (induction xs)
  case Nil
  then show ?case by simp
next
  case (Cons y ys)
  show ?case
  proof (cases "cmp x y \<le> 0")
    case True
    have "\<forall>z \<in> set ys. cmp x z \<le> 0"
    proof
      fix z assume "z \<in> set ys"
      with Cons.prems have "cmp y z \<le> 0" by simp
      with True tr show "cmp x z \<le> 0" by blast
    qed
    with True Cons.prems show ?thesis by simp
  next
    case False
    with tot have "cmp y x \<le> 0" by blast
    moreover have "sorted_wrt (\<lambda>a b. cmp a b \<le> 0) (insert_by cmp x ys)"
      using Cons by simp
    moreover have "\<forall>z \<in> set ys. cmp y z \<le> 0" using Cons.prems by simp
    ultimately show ?thesis using False by (simp add: set_insert_by)
  qed
qed

lemma sorted_js_sort:
  assumes "\<forall>a b. cmp a b \<le> 0 \<or> cmp b a \<le> 0"
    and "\<forall>a b c. cmp a b \<le> 0 \<and> cmp b c \<le> 0 \<longrightarrow> cmp a c \<le> 0"
  shows "sorted_wrt (\<lambda>a b. cmp a b \<le> 0) (js_sort cmp xs)"
proof (induction xs)
  case Nil
  then show ?case by (simp add: js_sort_def)
next
  case (Cons x xs)
  have "js_sort cmp (x # xs) = insert_by cmp x (js_sort cmp xs)" by (simp add: js_sort_def)
  with Cons sorted_insert_by [OF assms] show ?case by simp
qed

lemma sorted_wrt_unique:
  assumes "sorted_wrt R xs" and "sorted_wrt R ys" and "mset xs = mset ys"
    and "\<forall>a \<in> set xs. \<forall>b \<in> set xs. R a b \<and> R b a \<longrightarrow> a = b"
  shows "xs = ys"
  using assms
proof (induction xs arbitrary: ys)
  case Nil
  then show ?case by simp
next
  case (Cons x xs)
  from Cons.prems(3) obtain y ys' where ys: "ys = y # ys'" by (cases ys) auto
  have sets: "set (x # xs) = set ys" using arg_cong [OF Cons.prems(3), of set_mset] by simp
  have "x = y"
  proof (rule ccontr)
    assume ne: "x \<noteq> y"
    have "x \<in> set ys'" using sets ys ne by auto
    then have 1: "R y x" using Cons.prems(2) ys by simp
    have "y \<in> set xs" using sets ys ne by auto
    then have 2: "R x y" using Cons.prems(1) by simp
    have "y \<in> set (x # xs)" using sets ys by simp
    have "x \<in> set (x # xs)" by simp
    with \<open>y \<in> set (x # xs)\<close> 1 2 Cons.prems(4) have "x = y" by blast
    with ne show False by simp
  qed
  moreover have "xs = ys'"
  proof (rule Cons.IH)
    show "sorted_wrt R xs" using Cons.prems(1) by simp
    show "sorted_wrt R ys'" using Cons.prems(2) ys by simp
    show "mset xs = mset ys'" using Cons.prems(3) ys \<open>x = y\<close> by simp
    show "\<forall>a \<in> set xs. \<forall>b \<in> set xs. R a b \<and> R b a \<longrightarrow> a = b" using Cons.prems(4) by simp
  qed
  ultimately show ?case using ys by simp
qed

lemma consistent_compare_total:
  assumes "consistent_compare cmp"
  shows "\<forall>a b. cmp a b \<le> 0 \<or> cmp b a \<le> 0"
  using assms [unfolded consistent_compare_def] by (rule conjunct1)

lemma consistent_compare_trans:
  assumes "consistent_compare cmp"
  shows "\<forall>a b c. cmp a b \<le> 0 \<and> cmp b c \<le> 0 \<longrightarrow> cmp a c \<le> 0"
  using assms [unfolded consistent_compare_def] by (rule conjunct2 [THEN conjunct1])

lemma consistent_compare_tie:
  assumes "consistent_compare cmp"
  shows "\<forall>a b. cmp a b \<le> 0 \<and> cmp b a \<le> 0 \<longrightarrow> cmp a b = 0"
  using assms [unfolded consistent_compare_def] by (rule conjunct2 [THEN conjunct2])

lemma by_originalname_total:
  assumes "consistent_compare (localeCompare e)"
  shows "\<forall>a b. by_originalname e a b \<le> 0 \<or> by_originalname e b a \<le> 0"
  unfolding by_originalname_def using consistent_compare_total [OF assms] by blast

lemma by_originalname_trans:
  assumes "consistent_compare (localeCompare e)"
  shows "\<forall>a b c. by_originalname e a b \<le> 0 \<and> by_originalname e b c \<le> 0 \<longrightarrow>
           by_originalname e a c \<le> 0"
  unfolding by_originalname_def using consistent_compare_trans [OF assms] by blast

lemma js_sort_order_independent:
  assumes c: "consistent_compare (localeCompare e)"
    and m: "mset xs' = mset xs"
    and n: "no_ties e xs"
  shows "js_sort (by_originalname e) xs' = js_sort (by_originalname e) xs"
proof -
  let ?R = "\<lambda>a b. by_originalname e a b \<le> 0"
  note tot = by_originalname_total [OF c]
  note tr = by_originalname_trans [OF c]
  note anti = consistent_compare_tie [OF c]
  have s1: "sorted_wrt ?R (js_sort (by_originalname e) xs')" using tot tr by (rule sorted_js_sort)
  have s2: "sorted_wrt ?R (js_sort (by_originalname e) xs)" using tot tr by (rule sorted_js_sort)
  have ms: "mset (js_sort (by_originalname e) xs') = mset (js_sort (by_originalname e) xs)"
    using m by (simp add: mset_js_sort)
  have "mset (js_sort (by_originalname e) xs') = mset xs" using m by (simp add: mset_js_sort)
  from arg_cong [OF this, of set_mset]
  have st: "set (js_sort (by_originalname e) xs') = set xs" by simp
  have u: "\<forall>a \<in> set (js_sort (by_originalname e) xs'). \<forall>b \<in> set (js_sort (by_originalname e) xs'). ?R a b \<and> ?R b a \<longrightarrow> a = b"
  proof (intro ballI impI)
    fix a b
    assume a: "a \<in> set (js_sort (by_originalname e) xs')" and b: "b \<in> set (js_sort (by_originalname e) xs')"
      and r: "?R a b \<and> ?R b a"
    from r have "localeCompare e (originalname a) (originalname b) \<le> 0 \<and>
                 localeCompare e (originalname b) (originalname a) \<le> 0"
      by (simp add: by_originalname_def)
    with anti have z: "localeCompare e (originalname a) (originalname b) = 0" by blast
    from a b st have "a \<in> set xs" "b \<in> set xs" by simp_all
    with n z show "a = b" unfolding no_ties_def by blast
  qed
  from s1 s2 ms u show ?thesis by (rule sorted_wrt_unique)
qed

lemma compare_bytes_total: "compare_bytes a b \<le> 0 \<or> compare_bytes b a \<le> 0"
  by (induction a b rule: compare_bytes.induct) auto

lemma compare_bytes_tie:
  "compare_bytes a b \<le> 0 \<Longrightarrow> compare_bytes b a \<le> 0 \<Longrightarrow> compare_bytes a b = 0"
  by (induction a b rule: compare_bytes.induct) (auto split: if_splits)

lemma compare_bytes_le_Cons:
  "compare_bytes (x # xs) (y # ys) \<le> 0 \<longleftrightarrow>
     (of_char x :: nat) < of_char y \<or> ((of_char x :: nat) = of_char y \<and> compare_bytes xs ys \<le> 0)"
  by auto

lemma compare_bytes_trans:
  "compare_bytes a b \<le> 0 \<Longrightarrow> compare_bytes b c \<le> 0 \<Longrightarrow> compare_bytes a c \<le> 0"
proof (induction a arbitrary: b c)
  case Nil
  then show ?case by (cases c) simp_all
next
  case (Cons x xs)
  from Cons.prems(1) obtain y ys where b: "b = y # ys" by (cases b) simp_all
  from Cons.prems(2) b obtain z zs where c: "c = z # zs" by (cases c) simp_all
  from Cons.prems(1) b have 1: "(of_char x :: nat) < of_char y \<or>
      ((of_char x :: nat) = of_char y \<and> compare_bytes xs ys \<le> 0)"
    by (simp only: compare_bytes_le_Cons)
  from Cons.prems(2) b c have 2: "(of_char y :: nat) < of_char z \<or>
      ((of_char y :: nat) = of_char z \<and> compare_bytes ys zs \<le> 0)"
    by (simp only: compare_bytes_le_Cons)
  have "(of_char x :: nat) < of_char z \<or>
      ((of_char x :: nat) = of_char z \<and> compare_bytes xs zs \<le> 0)"
  proof (cases "(of_char x :: nat) < of_char z")
    case True
    then show ?thesis by (rule disjI1)
  next
    case False
    with 1 2 have e: "(of_char x :: nat) = of_char y" "(of_char y :: nat) = of_char z"
      and l: "compare_bytes xs ys \<le> 0" "compare_bytes ys zs \<le> 0"
      by linarith+
    from l have "compare_bytes xs zs \<le> 0" by (rule Cons.IH)
    with e show ?thesis by simp
  qed
  then show ?case unfolding c by (simp only: compare_bytes_le_Cons)
qed

lemma compare_bytes_consistent: "consistent_compare compare_bytes"
  unfolding consistent_compare_def
proof (intro conjI allI impI)
  fix a b :: string
  show "compare_bytes a b \<le> 0 \<or> compare_bytes b a \<le> 0" by (rule compare_bytes_total)
next
  fix a b c :: string
  assume "compare_bytes a b \<le> 0 \<and> compare_bytes b c \<le> 0"
  then show "compare_bytes a c \<le> 0" using compare_bytes_trans by blast
next
  fix a b :: string
  assume "compare_bytes a b \<le> 0 \<and> compare_bytes b a \<le> 0"
  then show "compare_bytes a b = 0" using compare_bytes_tie by blast
qed

lemma filter_insert_by:
  assumes "\<forall>y. P x \<and> P y \<longrightarrow> cmp x y \<le> 0"
  shows "filter P (insert_by cmp x ys) = (if P x then x # filter P ys else filter P ys)"
  using assms by (induction ys) auto

lemma js_sort_stable:
  assumes "\<forall>x y. P x \<and> P y \<longrightarrow> cmp x y \<le> 0"
  shows "filter P (js_sort cmp xs) = filter P xs"
proof (induction xs)
  case Nil
  then show ?case by (simp add: js_sort_def)
next
  case (Cons x xs)
  have "js_sort cmp (x # xs) = insert_by cmp x (js_sort cmp xs)" by (simp add: js_sort_def)
  moreover have "\<forall>y. P x \<and> P y \<longrightarrow> cmp x y \<le> 0" using assms by blast
  ultimately show ?case using Cons by (simp add: filter_insert_by)
qed

lemma tied_files_compare:
  assumes "consistent_compare (localeCompare e)"
  shows "\<forall>x y. (localeCompare e (originalname x) n \<le> 0 \<and> localeCompare e n (originalname x) \<le> 0) \<and>
               (localeCompare e (originalname y) n \<le> 0 \<and> localeCompare e n (originalname y) \<le> 0)
           \<longrightarrow> by_originalname e x y \<le> 0"
  unfolding by_originalname_def using consistent_compare_trans [OF assms] by blast

text \<open>
  Claim C4, as the code has it. The uploads arrive already split by field name into
  images and audios. Staging sorts each list by original file name with
  \<^verbatim>\<open>Array.prototype.sort\<close> under \<^verbatim>\<open>localeCompare\<close>, a collation of the platform and a
  parameter here. Each staged list is a permutation of the uploaded one. When the
  comparison orders its arguments consistently, each staged list is sorted under it;
  the files whose names tie with a name \<open>n\<close> (they compare both ways with it) stand in
  the staged list in the order in which they arrived; and when no two files of a list
  have names that compare as equal, every arrival order of the same files gives the same
  two staged lists.
\<close>

theorem staging_is_a_stable_sort:
  assumes "ups = (case images fl of None \<Rightarrow> [] | Some xs \<Rightarrow> xs)"
    and "auds = (case audios fl of None \<Rightarrow> [] | Some xs \<Rightarrow> xs)"
  shows "mset (fst (stage e fl)) = mset ups \<and> mset (snd (stage e fl)) = mset auds \<and>
     (consistent_compare (localeCompare e) \<longrightarrow>
        sorted_wrt (\<lambda>a b. localeCompare e (originalname a) (originalname b) \<le> 0) (fst (stage e fl)) \<and>
        sorted_wrt (\<lambda>a b. localeCompare e (originalname a) (originalname b) \<le> 0) (snd (stage e fl)) \<and>
        (\<forall>n. filter (\<lambda>x. localeCompare e (originalname x) n \<le> 0 \<and>
                          localeCompare e n (originalname x) \<le> 0) (fst (stage e fl)) =
             filter (\<lambda>x. localeCompare e (originalname x) n \<le> 0 \<and>
                          localeCompare e n (originalname x) \<le> 0) ups) \<and>
        (\<forall>n. filter (\<lambda>x. localeCompare e (originalname x) n \<le> 0 \<and>
                          localeCompare e n (originalname x) \<le> 0) (snd (stage e fl)) =
             filter (\<lambda>x. localeCompare e (originalname x) n \<le> 0 \<and>
                          localeCompare e n (originalname x) \<le> 0) auds) \<and>
        (mset (case images fl' of None \<Rightarrow> [] | Some xs \<Rightarrow> xs) = mset ups \<and>
         mset (case audios fl' of None \<Rightarrow> [] | Some xs \<Rightarrow> xs) = mset auds \<and>
         no_ties e ups \<and> no_ties e auds \<longrightarrow> stage e fl' = stage e fl))"
proof -
  have u: "or_empty (images fl) = ups" "or_empty (audios fl) = auds"
    using assms by (simp_all add: or_empty_def)
  have p: "mset (fst (stage e fl)) = mset ups" "mset (snd (stage e fl)) = mset auds"
    by (simp_all add: stage_def mset_js_sort u)
  have "sorted_wrt (\<lambda>a b. localeCompare e (originalname a) (originalname b) \<le> 0) (fst (stage e fl)) \<and>
        sorted_wrt (\<lambda>a b. localeCompare e (originalname a) (originalname b) \<le> 0) (snd (stage e fl)) \<and>
        (\<forall>n. filter (\<lambda>x. localeCompare e (originalname x) n \<le> 0 \<and>
                          localeCompare e n (originalname x) \<le> 0) (fst (stage e fl)) =
             filter (\<lambda>x. localeCompare e (originalname x) n \<le> 0 \<and>
                          localeCompare e n (originalname x) \<le> 0) ups) \<and>
        (\<forall>n. filter (\<lambda>x. localeCompare e (originalname x) n \<le> 0 \<and>
                          localeCompare e n (originalname x) \<le> 0) (snd (stage e fl)) =
             filter (\<lambda>x. localeCompare e (originalname x) n \<le> 0 \<and>
                          localeCompare e n (originalname x) \<le> 0) auds) \<and>
        (mset (case images fl' of None \<Rightarrow> [] | Some xs \<Rightarrow> xs) = mset ups \<and>
         mset (case audios fl' of None \<Rightarrow> [] | Some xs \<Rightarrow> xs) = mset auds \<and>
         no_ties e ups \<and> no_ties e auds \<longrightarrow> stage e fl' = stage e fl)"
    if c: "consistent_compare (localeCompare e)"
  proof -
    note tot = by_originalname_total [OF c]
    note tr = by_originalname_trans [OF c]
    have s: "sorted_wrt (\<lambda>a b. by_originalname e a b \<le> 0) (js_sort (by_originalname e) xs)" for xs
      using tot tr by (rule sorted_js_sort)
    have s1: "sorted_wrt (\<lambda>a b. localeCompare e (originalname a) (originalname b) \<le> 0) (fst (stage e fl))"
      "sorted_wrt (\<lambda>a b. localeCompare e (originalname a) (originalname b) \<le> 0) (snd (stage e fl))"
      using s [of "or_empty (images fl)"] s [of "or_empty (audios fl)"]
      by (simp_all add: stage_def by_originalname_def)
    have st: "filter (\<lambda>x. localeCompare e (originalname x) n \<le> 0 \<and>
                          localeCompare e n (originalname x) \<le> 0) (js_sort (by_originalname e) xs) =
             filter (\<lambda>x. localeCompare e (originalname x) n \<le> 0 \<and>
                          localeCompare e n (originalname x) \<le> 0) xs" for n xs
      using tied_files_compare [OF c, of n] by (rule js_sort_stable)
    have ind: "stage e fl' = stage e fl"
      if h: "mset (case images fl' of None \<Rightarrow> [] | Some xs \<Rightarrow> xs) = mset ups \<and>
         mset (case audios fl' of None \<Rightarrow> [] | Some xs \<Rightarrow> xs) = mset auds \<and>
         no_ties e ups \<and> no_ties e auds"
    proof -
      from h u have m1: "mset (or_empty (images fl')) = mset (or_empty (images fl))"
        and m2: "mset (or_empty (audios fl')) = mset (or_empty (audios fl))"
        and t1: "no_ties e (or_empty (images fl))" and t2: "no_ties e (or_empty (audios fl))"
        by (simp_all add: or_empty_def)
      from js_sort_order_independent [OF c m1 t1] js_sort_order_independent [OF c m2 t2]
      show ?thesis by (simp add: stage_def)
    qed
    from s1 st ind show ?thesis by (simp add: stage_def u)
  qed
  with p show ?thesis by blast
qed

theorem staging_is_a_stable_sort_witness:
  "consistent_compare (localeCompare sample_env) \<and>
   no_ties sample_env [img_b, img_a] \<and> no_ties sample_env [aud_a] \<and>
   mset (fst (stage sample_env two_images_upload)) = mset [img_b, img_a] \<and>
   mset (snd (stage sample_env two_images_upload)) = mset [aud_a] \<and>
   sorted_wrt (\<lambda>a b. localeCompare sample_env (originalname a) (originalname b) \<le> 0)
     (fst (stage sample_env two_images_upload)) \<and>
   stage sample_env \<lparr>images = Some [img_a, img_b], audios = Some [aud_a]\<rparr> =
     stage sample_env two_images_upload \<and>
   stage sample_env two_images_upload = ([img_a, img_b], [aud_a])"
proof -
  let ?fl' = "\<lparr>images = Some [img_a, img_b], audios = Some [aud_a]\<rparr>"
  have c: "consistent_compare (localeCompare sample_env)"
    using compare_bytes_consistent by (simp add: sample_env_def)
  have u: "[img_b, img_a] = (case images two_images_upload of None \<Rightarrow> [] | Some xs \<Rightarrow> xs)"
    "[aud_a] = (case audios two_images_upload of None \<Rightarrow> [] | Some xs \<Rightarrow> xs)"
    by (simp_all add: two_images_upload_def)
  have m: "mset (case images ?fl' of None \<Rightarrow> [] | Some xs \<Rightarrow> xs) = mset [img_b, img_a]"
    "mset (case audios ?fl' of None \<Rightarrow> [] | Some xs \<Rightarrow> xs) = mset [aud_a]"
    by simp_all
  have t: "no_ties sample_env [img_b, img_a]" "no_ties sample_env [aud_a]"
    by (simp_all add: no_ties_def img_a_def img_b_def sample_env_def)
  from staging_is_a_stable_sort [OF u, of sample_env ?fl'] c m t sample_stage
  show ?thesis by blast
qed

text \<open>
  Against claim C4 as stated (a byte-wise order, independent of the arrival order). Two
  files with the same original name stay in their arrival order, so the same files
  arriving in the other order are staged in the other order, also under the byte-wise
  comparison. And the order is the one \<^verbatim>\<open>localeCompare\<close> defines: under the comparison
  that looks at the letters without regard to case first, \<^verbatim>\<open>a.png\<close> is staged before
  \<^verbatim>\<open>B.png\<close>, which comes first byte by byte.
\<close>

theorem staging_order_differs_from_claim:
  "stage sample_env \<lparr>images = Some [same_name_1, same_name_2], audios = None\<rparr> =
     ([same_name_1, same_name_2], []) \<and>
   stage sample_env \<lparr>images = Some [same_name_2, same_name_1], audios = None\<rparr> =
     ([same_name_2, same_name_1], []) \<and>
   originalname same_name_1 = originalname same_name_2 \<and>
   same_name_1 \<noteq> same_name_2 \<and>
   stage collating_env \<lparr>images = Some [upper_b, lower_a], audios = None\<rparr> =
     ([lower_a, upper_b], []) \<and>
   compare_bytes (originalname upper_b) (originalname lower_a) < 0"
  by code_simp

subsection \<open>Cleanup\<close>

text \<open>
  Claim C1 (cleanup on every exit path) is not met by the code: lines 95 to 98 stand
  only at the end of the successful path. A request with two scenes and one image throws at line 44 and leaves
  the temporary directory, its two subdirectories and the uploaded image; a failing
  encoder run leaves the directory with the segments written so far and the uploads.
  The successful render of the same files removes all of them.
\<close>

theorem cleanup_missing_on_error_paths:
  "fst (renderMp4 sample_env one_image sample_world) = Inl (ImagesCountError 1 2) \<and>
   fs (snd (renderMp4 sample_env one_image sample_world)) ''/t/cs'' = Some Dir \<and>
   fs (snd (renderMp4 sample_env one_image sample_world)) ''/t/cs/imgs'' = Some Dir \<and>
   fs (snd (renderMp4 sample_env one_image sample_world)) ''/t/cs/aud'' = Some Dir \<and>
   fs (snd (renderMp4 sample_env one_image sample_world)) ''/u/1'' = Some (File ''png'') \<and>
   fst (renderMp4 (failing_at ''/u/2'') two_images sample_world) = Inl (FfmpegFailed (Some 1) ''boom'') \<and>
   fs (snd (renderMp4 (failing_at ''/u/2'') two_images sample_world)) ''/t/cs'' = Some Dir \<and>
   fs (snd (renderMp4 (failing_at ''/u/2'') two_images sample_world)) ''/t/cs/seg_000.mp4'' = Some (File ''v'') \<and>
   fs (snd (renderMp4 (failing_at ''/u/2'') two_images sample_world)) ''/u/1'' = Some (File ''png'') \<and>
   fst (renderMp4 sample_env two_images sample_world) = Inr ''v'' \<and>
   fs (snd (renderMp4 sample_env two_images sample_world)) ''/t/cs'' = None \<and>
   fs (snd (renderMp4 sample_env two_images sample_world)) ''/t/cs/seg_000.mp4'' = None \<and>
   fs (snd (renderMp4 sample_env two_images sample_world)) ''/u/1'' = None"
  by code_simp

end
